theory Spec2Isabelle
  imports Main "HOL-Library.Word"
begin

unbundle bit_operations_syntax

section \<open>Data model of \<^verbatim>\<open>secret_storage.c\<close>\<close>

type_synonym u8 = "8 word"
type_synonym u16 = "16 word"
type_synonym u32 = "32 word"

subsection \<open>Protocol constants (lines 8-21)\<close>

definition SECRET_CMD_INFO :: u8 where "SECRET_CMD_INFO = 0xA0"
definition SECRET_CMD_READ :: u8 where "SECRET_CMD_READ = 0xA1"
definition SECRET_CMD_WRITE :: u8 where "SECRET_CMD_WRITE = 0xA2"
definition SECRET_CMD_ERASE :: u8 where "SECRET_CMD_ERASE = 0xA3"

definition SECRET_STATUS_OK :: u8 where "SECRET_STATUS_OK = 0x00"
definition SECRET_STATUS_ERR :: u8 where "SECRET_STATUS_ERR = 0x01"
definition SECRET_STATUS_BUSY :: u8 where "SECRET_STATUS_BUSY = 0x02"
definition SECRET_STATUS_RANGE :: u8 where "SECRET_STATUS_RANGE = 0x03"
definition SECRET_STATUS_ALIGN :: u8 where "SECRET_STATUS_ALIGN = 0x04"
definition SECRET_STATUS_ABORT :: u8 where "SECRET_STATUS_ABORT = 0x05"

definition SECRET_MAX_READ :: u8 where "SECRET_MAX_READ = 28"
definition SECRET_MAX_WRITE :: u8 where "SECRET_MAX_WRITE = 26"

subsection \<open>Build-time configuration\<close>

text \<open>
  The macros \<^verbatim>\<open>PICO_FLASH_SIZE_BYTES\<close>, \<^verbatim>\<open>WEAR_LEVELING_BACKING_SIZE\<close>,
  \<^verbatim>\<open>SECRET_STORAGE_SIZE\<close>, \<^verbatim>\<open>FLASH_SECTOR_SIZE\<close>, \<^verbatim>\<open>FLASH_PAGE_SIZE\<close>,
  \<^verbatim>\<open>XIP_BASE\<close> and \<^verbatim>\<open>KC_ESC\<close> come from the board configuration, the Pico SDK and
  QMK; the translation unit only uses them. They are parameters of the model.
\<close>

record config =
  PICO_FLASH_SIZE_BYTES :: u32
  WEAR_LEVELING_BACKING_SIZE :: u32
  SECRET_STORAGE_SIZE :: u32
  FLASH_SECTOR_SIZE :: u32
  FLASH_PAGE_SIZE :: u32
  XIP_BASE :: u32
  KC_ESC :: u16

text \<open>Line 23.\<close>

definition SECRET_STORAGE_BASE :: "config \<Rightarrow> u32" where
  "SECRET_STORAGE_BASE cfg =
     PICO_FLASH_SIZE_BYTES cfg - WEAR_LEVELING_BACKING_SIZE cfg - SECRET_STORAGE_SIZE cfg"

text \<open>The five \<^verbatim>\<open>_Static_assert\<close>s of lines 25-29; a build that violates one does not compile.\<close>

definition static_asserts :: "config \<Rightarrow> bool" where
  "static_asserts cfg \<longleftrightarrow>
     SECRET_STORAGE_SIZE cfg > 0 \<and>
     SECRET_STORAGE_SIZE cfg mod FLASH_SECTOR_SIZE cfg = 0 \<and>
     WEAR_LEVELING_BACKING_SIZE cfg mod FLASH_SECTOR_SIZE cfg = 0 \<and>
     SECRET_STORAGE_BASE cfg mod FLASH_SECTOR_SIZE cfg = 0 \<and>
     unat (SECRET_STORAGE_SIZE cfg) + unat (WEAR_LEVELING_BACKING_SIZE cfg)
       \<le> unat (PICO_FLASH_SIZE_BYTES cfg)"

text \<open>
  What the flash hardware guarantees of its geometry: sector and page sizes are powers of
  two, and a page is no larger than a sector (the SDK has \<^verbatim>\<open>1u << 12\<close> and \<^verbatim>\<open>1u << 8\<close>).
\<close>

definition flash_geometry :: "config \<Rightarrow> bool" where
  "flash_geometry cfg \<longleftrightarrow>
     (\<exists>k \<in> set [0..<32]. \<exists>m \<in> set [0..<Suc k].
        FLASH_SECTOR_SIZE cfg = 2 ^ k \<and> FLASH_PAGE_SIZE cfg = 2 ^ m)"

definition config_ok :: "config \<Rightarrow> bool" where
  "config_ok cfg \<longleftrightarrow> static_asserts cfg \<and> flash_geometry cfg"

subsection \<open>Engine state (lines 31-33) and the flash array\<close>

text \<open>
  \<open>flash\<close> maps a flash offset (the argument of \<^verbatim>\<open>flash_range_erase\<close> and
  \<^verbatim>\<open>flash_range_program\<close>) to the byte stored there; the same byte is visible to the
  processor at address \<^verbatim>\<open>XIP_BASE\<close> plus that offset.
\<close>

record state =
  secret_busy :: bool
  secret_abort :: bool
  secret_sector_buf :: "u8 list"
  flash :: "u32 \<Rightarrow> u8"

text \<open>A key event: the keycode and \<^verbatim>\<open>record->event.pressed\<close>.\<close>

type_synonym key_event = "u16 \<times> bool"

text \<open>
  \<^verbatim>\<open>secret_abort\<close> is \<^verbatim>\<open>volatile\<close>: it is written by the key hook from another
  context while a flash operation runs. A schedule lists, for each successive point at
  which the code reads \<^verbatim>\<open>secret_abort\<close> (lines 64 and 79 in the loops, lines 181, 209 and
  240 after the engine call), the key events that arrived since the previous such point.
  An exhausted schedule means that no further key event arrives. Between two such
  points the code does not look at the flag, so when within that stretch an event
  arrives makes no difference; in particular lines 67-69 and 93-98, which run with
  interrupts disabled, need no state of their own.
\<close>

type_synonym schedule = "key_event list list"

text \<open>
  Reads that leave an array: line 123 copying 32 bytes out of a shorter buffer, and
  \<^verbatim>\<open>memcpy\<close> at line 91 reading \<^verbatim>\<open>req\<close> at the index given, 32 or more. C gives such a
  read no defined behaviour; the model stops there.
\<close>

datatype fault =
  DataOverread
| ReqOverread nat

text \<open>
  What a call of the entry point does: it runs forever, it hits a fault, or it returns
  with the engine state and the response buffer.
\<close>

datatype outcome =
  Diverges
| Faults fault
| Returns state "u8 list"

section \<open>Operations\<close>

subsection \<open>Big-endian helpers (lines 35-44)\<close>

definition read_u32_be :: "u8 list \<Rightarrow> nat \<Rightarrow> u32" where
  "read_u32_be p i =
     push_bit 24 (ucast (p ! i)) OR push_bit 16 (ucast (p ! (i + 1)))
       OR push_bit 8 (ucast (p ! (i + 2))) OR ucast (p ! (i + 3))"

definition write_u32_be :: "u8 list \<Rightarrow> nat \<Rightarrow> u32 \<Rightarrow> u8 list" where
  "write_u32_be p i v =
     p[i := ucast (drop_bit 24 v AND 0xFF),
       i + 1 := ucast (drop_bit 16 v AND 0xFF),
       i + 2 := ucast (drop_bit 8 v AND 0xFF),
       i + 3 := ucast (v AND 0xFF)]"

subsection \<open>Memory and flash primitives\<close>

text \<open>\<^verbatim>\<open>memcpy(dst + off, bytes, length bytes)\<close> and \<^verbatim>\<open>memset(dst + off, v, n)\<close>.\<close>

definition memcpy_into :: "u8 list \<Rightarrow> nat \<Rightarrow> u8 list \<Rightarrow> u8 list" where
  "memcpy_into dst off bytes = take off dst @ bytes @ drop (off + length bytes) dst"

definition memset_at :: "u8 list \<Rightarrow> nat \<Rightarrow> u8 \<Rightarrow> nat \<Rightarrow> u8 list" where
  "memset_at dst off v n = memcpy_into dst off (replicate n v)"

text \<open>
  Reading \<open>n\<close> bytes of the 32-byte array \<^verbatim>\<open>req\<close> from index \<open>idx\<close>; \<open>None\<close> when the
  read leaves the array.
\<close>

definition fetch :: "u8 list \<Rightarrow> nat \<Rightarrow> nat \<Rightarrow> u8 list option" where
  "fetch buf idx n = (if idx + n \<le> length buf then Some (take n (drop idx buf)) else None)"

text \<open>Reading \<open>n\<close> bytes through the execute-in-place window at address \<open>addr\<close>.\<close>

definition xip_read :: "config \<Rightarrow> state \<Rightarrow> u32 \<Rightarrow> nat \<Rightarrow> u8 list" where
  "xip_read cfg st addr n = map (\<lambda>i. flash st (addr + of_nat i - XIP_BASE cfg)) [0..<n]"

text \<open>
  The SDK's \<^verbatim>\<open>flash_range_erase(off, count)\<close> sets every byte of the range to all ones;
  \<^verbatim>\<open>flash_range_program(off, data, count)\<close> can only clear bits, so the stored byte
  becomes the conjunction of the old byte and the data byte.
\<close>

definition flash_range_erase :: "state \<Rightarrow> u32 \<Rightarrow> u32 \<Rightarrow> state" where
  "flash_range_erase st off count =
     st\<lparr>flash := (\<lambda>a. if a - off < count then - 1 else flash st a)\<rparr>"

definition flash_range_program :: "state \<Rightarrow> u32 \<Rightarrow> u8 list \<Rightarrow> state" where
  "flash_range_program st off bytes =
     st\<lparr>flash := (\<lambda>a. if unat (a - off) < length bytes
                        then flash st a AND bytes ! unat (a - off) else flash st a)\<rparr>"

subsection \<open>The cancellation hook (lines 108-117)\<close>

definition secret_storage_process_record_user ::
    "config \<Rightarrow> state \<Rightarrow> u16 \<Rightarrow> bool \<Rightarrow> bool \<times> state" where
  "secret_storage_process_record_user cfg st keycode pressed =
     (if secret_busy st then
        (False, if pressed \<and> keycode = KC_ESC cfg then st\<lparr>secret_abort := True\<rparr> else st)
      else (True, st))"

text \<open>Key events reaching the hook one after the other, and the next batch of a schedule.\<close>

definition deliver :: "config \<Rightarrow> state \<Rightarrow> key_event list \<Rightarrow> state" where
  "deliver cfg st evs =
     foldl (\<lambda>s ev. snd (secret_storage_process_record_user cfg s (fst ev) (snd ev))) st evs"

definition poll :: "config \<Rightarrow> state \<Rightarrow> schedule \<Rightarrow> state \<times> schedule" where
  "poll cfg st env = (case env of [] \<Rightarrow> (st, []) | b # bs \<Rightarrow> (deliver cfg st b, bs))"

subsection \<open>Flash engine (lines 46-106)\<close>

definition secret_flash_offset :: "config \<Rightarrow> u32 \<Rightarrow> u32" where
  "secret_flash_offset cfg offset = SECRET_STORAGE_BASE cfg + offset"

definition secret_read_bytes ::
    "config \<Rightarrow> state \<Rightarrow> u32 \<Rightarrow> u8 list \<Rightarrow> nat \<Rightarrow> nat \<Rightarrow> u8 list" where
  "secret_read_bytes cfg st offset dst di len =
     memcpy_into dst di (xip_read cfg st (XIP_BASE cfg + secret_flash_offset cfg offset) len)"

partial_function (option) erase_loop ::
    "config \<Rightarrow> state \<Rightarrow> schedule \<Rightarrow> u32 \<Rightarrow> u32 \<Rightarrow> (bool \<times> state \<times> schedule) option" where
  "erase_loop cfg st env addr end_addr =
     (if addr < end_addr then
        (case poll cfg st env of (st1, env1) \<Rightarrow>
           if secret_abort st1 then Some (False, st1, env1)
           else erase_loop cfg (flash_range_erase st1 addr (FLASH_SECTOR_SIZE cfg)) env1
                  (addr + FLASH_SECTOR_SIZE cfg) end_addr)
      else Some (True, st, env))"

declare erase_loop.simps [code]

definition secret_erase_range ::
    "config \<Rightarrow> state \<Rightarrow> schedule \<Rightarrow> u32 \<Rightarrow> u32 \<Rightarrow> (bool \<times> state \<times> schedule) option" where
  "secret_erase_range cfg st env offset len =
     (if offset mod FLASH_SECTOR_SIZE cfg \<noteq> 0 \<or> len mod FLASH_SECTOR_SIZE cfg \<noteq> 0
      then Some (False, st, env)
      else
        let start = secret_flash_offset cfg offset;
            end_addr = start + len
        in erase_loop cfg st env start end_addr)"

text \<open>The inner loop of lines 95-97, programming the sector page by page from the buffer.\<close>

partial_function (option) program_loop ::
    "config \<Rightarrow> state \<Rightarrow> u32 \<Rightarrow> u32 \<Rightarrow> state option" where
  "program_loop cfg st sector_start i =
     (if i < FLASH_SECTOR_SIZE cfg then
        program_loop cfg
          (flash_range_program st (sector_start + i)
             (take (unat (FLASH_PAGE_SIZE cfg)) (drop (unat i) (secret_sector_buf st))))
          sector_start (i + FLASH_PAGE_SIZE cfg)
      else Some st)"

declare program_loop.simps [code]

text \<open>
  The loop of lines 78-103. \<open>req\<close> is the array the source pointer points into and
  \<open>src\<close> the index it currently points at.
\<close>

partial_function (option) write_loop ::
    "config \<Rightarrow> u8 list \<Rightarrow> state \<Rightarrow> schedule \<Rightarrow> u32 \<Rightarrow> nat \<Rightarrow> u32
       \<Rightarrow> (fault + bool \<times> state \<times> schedule) option" where
  "write_loop cfg req st env addr src len =
     (if len > 0 then
        (case poll cfg st env of (st1, env1) \<Rightarrow>
           if secret_abort st1 then Some (Inr (False, st1, env1))
           else
             let sector_start = addr AND NOT (FLASH_SECTOR_SIZE cfg - 1);
                 sector_offset = addr - sector_start;
                 chunk0 = FLASH_SECTOR_SIZE cfg - sector_offset;
                 chunk = (if chunk0 > len then len else chunk0);
                 buf1 = xip_read cfg st1 (XIP_BASE cfg + sector_start)
                          (unat (FLASH_SECTOR_SIZE cfg))
             in (case fetch req src (unat chunk) of
                   None \<Rightarrow> Some (Inl (ReqOverread (src + unat chunk - 1)))
                 | Some bytes \<Rightarrow>
                     (let buf2 = memcpy_into buf1 (unat sector_offset) bytes;
                          st2 = st1\<lparr>secret_sector_buf := buf2\<rparr>;
                          st3 = flash_range_erase st2 sector_start (FLASH_SECTOR_SIZE cfg)
                      in Option.bind (program_loop cfg st3 sector_start 0)
                           (\<lambda>st4. write_loop cfg req st4 env1 (addr + chunk)
                                     (src + unat chunk) (len - chunk)))))
      else Some (Inr (True, st, env)))"

declare write_loop.simps [code]

definition secret_write_bytes ::
    "config \<Rightarrow> u8 list \<Rightarrow> state \<Rightarrow> schedule \<Rightarrow> u32 \<Rightarrow> nat \<Rightarrow> u32
       \<Rightarrow> (fault + bool \<times> state \<times> schedule) option" where
  "secret_write_bytes cfg req st env offset src len =
     write_loop cfg req st env (secret_flash_offset cfg offset) src len"

subsection \<open>The dispatcher (lines 119-248)\<close>

definition is_command :: "u8 \<Rightarrow> bool" where
  "is_command c \<longleftrightarrow>
     c = SECRET_CMD_INFO \<or> c = SECRET_CMD_READ \<or> c = SECRET_CMD_WRITE \<or> c = SECRET_CMD_ERASE"

text \<open>
  Lines 176-189, 204-215 and 235-246 end alike: the key events of the last stretch are
  in, \<^verbatim>\<open>secret_busy\<close> is cleared, and \<^verbatim>\<open>secret_abort\<close> decides the status.
\<close>

definition finish :: "config \<Rightarrow> state \<Rightarrow> schedule \<Rightarrow> state" where
  "finish cfg st env = (fst (poll cfg st env))\<lparr>secret_busy := False\<rparr>"

text \<open>
  Lines 142-145: the response buffer is zeroed from index 1 on; in the prefixed framing
  byte 0 is written back from the saved request.
\<close>

definition clear_response :: "u8 list \<Rightarrow> u8 list \<Rightarrow> nat \<Rightarrow> u8 list" where
  "clear_response data0 req base =
     (if base = 1 then (memset_at data0 1 0 31)[0 := req ! 0] else memset_at data0 1 0 31)"

text \<open>Lines 148-154: the INFO response written over the cleared buffer \<open>d\<close>.\<close>

definition info_bytes :: "config \<Rightarrow> nat \<Rightarrow> u8 list \<Rightarrow> u8 list" where
  "info_bytes cfg base d =
     (write_u32_be (write_u32_be (write_u32_be (write_u32_be
        (d[base + 1 := SECRET_STATUS_OK])
        (base + 2) (SECRET_STORAGE_SIZE cfg))
        (base + 6) (PICO_FLASH_SIZE_BYTES cfg))
        (base + 10) (WEAR_LEVELING_BACKING_SIZE cfg))
        (base + 14) (SECRET_STORAGE_BASE cfg))
      [base + 18 := SECRET_MAX_READ, base + 19 := SECRET_MAX_WRITE]"

text \<open>Lines 138-247, for the command \<open>cmd\<close> found at index \<open>base\<close>.\<close>

definition dispatch ::
    "config \<Rightarrow> schedule \<Rightarrow> state \<Rightarrow> u8 list \<Rightarrow> u8 list \<Rightarrow> nat \<Rightarrow> u8 \<Rightarrow> outcome" where
  "dispatch cfg env st req data0 base cmd =
     (let data = clear_response data0 req base
      in
      if cmd = SECRET_CMD_INFO then
        Returns st (info_bytes cfg base data)
      else if secret_busy st then Returns st (data[base + 1 := SECRET_STATUS_BUSY])
      else if cmd = SECRET_CMD_READ then
        (let offset = read_u32_be req (base + 1);
             size = req ! (base + 5)
         in
         if size = 0 \<or> size > SECRET_MAX_READ then
           Returns st (data[base + 1 := SECRET_STATUS_ERR])
         else if offset + ucast size > SECRET_STORAGE_SIZE cfg then
           Returns st (data[base + 1 := SECRET_STATUS_RANGE])
         else
           let st1 = st\<lparr>secret_busy := True, secret_abort := False\<rparr>;
               data1 = secret_read_bytes cfg st1 offset data (base + 3) (unat size);
               st2 = finish cfg st1 env
           in if secret_abort st2 then Returns st2 (data1[base + 1 := SECRET_STATUS_ABORT])
              else Returns st2 (data1[base + 1 := SECRET_STATUS_OK, base + 2 := size]))
      else if cmd = SECRET_CMD_WRITE then
        (let offset = read_u32_be req (base + 1);
             size = req ! (base + 5)
         in
         if size = 0 \<or> size > SECRET_MAX_WRITE then
           Returns st (data[base + 1 := SECRET_STATUS_ERR])
         else if offset + ucast size > SECRET_STORAGE_SIZE cfg then
           Returns st (data[base + 1 := SECRET_STATUS_RANGE])
         else
           let st1 = st\<lparr>secret_busy := True, secret_abort := False\<rparr>
           in case secret_write_bytes cfg req st1 env offset (base + 6) (ucast size) of
                None \<Rightarrow> Diverges
              | Some (Inl f) \<Rightarrow> Faults f
              | Some (Inr (ok, st2, env2)) \<Rightarrow>
                  let st3 = finish cfg st2 env2
                  in if secret_abort st3
                     then Returns st3 (data[base + 1 := SECRET_STATUS_ABORT])
                     else Returns st3
                            (data[base + 1 := (if ok then SECRET_STATUS_OK
                                               else SECRET_STATUS_ERR)]))
      else if cmd = SECRET_CMD_ERASE then
        (let offset = read_u32_be req (base + 1);
             size = read_u32_be req (base + 5)
         in
         if size = 0 then Returns st (data[base + 1 := SECRET_STATUS_ERR])
         else if offset + size > SECRET_STORAGE_SIZE cfg then
           Returns st (data[base + 1 := SECRET_STATUS_RANGE])
         else if offset mod FLASH_SECTOR_SIZE cfg \<noteq> 0 \<or> size mod FLASH_SECTOR_SIZE cfg \<noteq> 0
         then Returns st (data[base + 1 := SECRET_STATUS_ALIGN])
         else
           let st1 = st\<lparr>secret_busy := True, secret_abort := False\<rparr>
           in case secret_erase_range cfg st1 env offset size of
                None \<Rightarrow> Diverges
              | Some (ok, st2, env2) \<Rightarrow>
                  let st3 = finish cfg st2 env2
                  in if secret_abort st3
                     then Returns st3 (data[base + 1 := SECRET_STATUS_ABORT])
                     else Returns st3
                            (data[base + 1 := (if ok then SECRET_STATUS_OK
                                               else SECRET_STATUS_ERR)]))
      else Returns st data)"

text \<open>
  Lines 125-136: the command byte is looked for at index 0, then at index 1. The result
  is the index of the command byte (\<^verbatim>\<open>base\<close>) and the command, or \<open>None\<close> when
  neither byte is a command code.
\<close>

definition classify :: "u8 list \<Rightarrow> (nat \<times> u8) option" where
  "classify req =
     (let cmd = req ! 0
      in
      if cmd \<noteq> SECRET_CMD_INFO \<and> cmd \<noteq> SECRET_CMD_READ \<and> cmd \<noteq> SECRET_CMD_WRITE
           \<and> cmd \<noteq> SECRET_CMD_ERASE
      then
        (let shifted = req ! 1
         in if shifted = SECRET_CMD_INFO \<or> shifted = SECRET_CMD_READ
                 \<or> shifted = SECRET_CMD_WRITE \<or> shifted = SECRET_CMD_ERASE
            then Some (1, shifted)
            else None)
      else Some (0, cmd))"

text \<open>
  The entry point. \<open>data\<close> is the buffer the transport hands over; line 123 copies its
  first 32 bytes, which leaves the buffer when it is shorter.
\<close>

definition raw_hid_receive_kb :: "config \<Rightarrow> schedule \<Rightarrow> state \<Rightarrow> u8 list \<Rightarrow> outcome" where
  "raw_hid_receive_kb cfg env st data =
     (if length data < 32 then Faults DataOverread
      else
        let req = take 32 data
        in case classify req of
             None \<Rightarrow> Returns st (data[0 := 0xFF])
           | Some (base, cmd) \<Rightarrow> dispatch cfg env st req data base cmd)"

text \<open>The response buffer and the engine state of an outcome that returns.\<close>

definition response :: "outcome \<Rightarrow> u8 list" where
  "response out = (case out of Returns st d \<Rightarrow> d | _ \<Rightarrow> [])"

definition final_state :: "outcome \<Rightarrow> state option" where
  "final_state out = (case out of Returns st d \<Rightarrow> Some st | _ \<Rightarrow> None)"

section \<open>The busy flag during a call\<close>










section \<open>Schedules and progress\<close>

text \<open>Whether a batch of key events holds a press of \<^verbatim>\<open>KC_ESC\<close>.\<close>

definition esc_pressed :: "config \<Rightarrow> key_event list \<Rightarrow> bool" where
  "esc_pressed cfg evs = list_ex (\<lambda>ev. snd ev \<and> fst ev = KC_ESC cfg) evs"

text \<open>The index of the first batch of a schedule that holds such a press, if any.\<close>

fun first_abort :: "config \<Rightarrow> schedule \<Rightarrow> nat option" where
  "first_abort cfg [] = None"
| "first_abort cfg (b # bs) =
     (if esc_pressed cfg b then Some 0 else map_option Suc (first_abort cfg bs))"

text \<open>
  The number of bytes from \<open>addr\<close> up to the \<open>j\<close>-th sector boundary behind it: what
  \<open>j\<close> chunks of an unbounded write starting at \<open>addr\<close> cover.
\<close>

definition chunk_end :: "config \<Rightarrow> u32 \<Rightarrow> nat \<Rightarrow> nat" where
  "chunk_end cfg addr j =
     (if j = 0 then 0
      else j * unat (FLASH_SECTOR_SIZE cfg) - unat addr mod unat (FLASH_SECTOR_SIZE cfg))"

text \<open>
  For a write of \<open>len\<close> bytes at flash offset \<open>addr\<close> under a schedule: the number of
  bytes committed (all of them, or those of the chunks before the batch with the press),
  and whether the press arrives before the write is over, the last chunk included.
\<close>

definition write_progress :: "config \<Rightarrow> schedule \<Rightarrow> u32 \<Rightarrow> u32 \<Rightarrow> nat" where
  "write_progress cfg env addr len =
     (case first_abort cfg env of
        None \<Rightarrow> unat len
      | Some j \<Rightarrow> min (unat len) (chunk_end cfg addr j))"

definition write_aborted :: "config \<Rightarrow> schedule \<Rightarrow> u32 \<Rightarrow> u32 \<Rightarrow> bool" where
  "write_aborted cfg env addr len =
     (case first_abort cfg env of
        None \<Rightarrow> False
      | Some j \<Rightarrow> j = 0 \<or> chunk_end cfg addr (j - 1) < unat len)"

text \<open>
  For an erase of \<open>n\<close> sectors under a schedule: the number of sectors erased, and
  whether the press arrives before the erase is over, the last sector included.
\<close>

definition erase_progress :: "config \<Rightarrow> schedule \<Rightarrow> nat \<Rightarrow> nat" where
  "erase_progress cfg env n = (case first_abort cfg env of None \<Rightarrow> n | Some j \<Rightarrow> min n j)"

definition erase_aborted :: "config \<Rightarrow> schedule \<Rightarrow> nat \<Rightarrow> bool" where
  "erase_aborted cfg env n = (case first_abort cfg env of None \<Rightarrow> False | Some j \<Rightarrow> j \<le> n)"

text \<open>
  The INFO layout in the specification's words: status at offset 0 from the command byte
  at index \<open>base\<close>, the four sizes from offset 1, the two limits at offsets 17 and 18.
\<close>

definition claimed_info_layout :: "config \<Rightarrow> nat \<Rightarrow> u8 list \<Rightarrow> bool" where
  "claimed_info_layout cfg base d \<longleftrightarrow>
     d ! (base + 0) = SECRET_STATUS_OK \<and>
     read_u32_be d (base + 1) = SECRET_STORAGE_SIZE cfg \<and>
     read_u32_be d (base + 5) = PICO_FLASH_SIZE_BYTES cfg \<and>
     read_u32_be d (base + 9) = WEAR_LEVELING_BACKING_SIZE cfg \<and>
     read_u32_be d (base + 13) = SECRET_STORAGE_BASE cfg \<and>
     d ! (base + 17) = SECRET_MAX_READ \<and>
     d ! (base + 18) = SECRET_MAX_WRITE"

section \<open>A concrete build\<close>

text \<open>
  The configuration of the specification's example: 2 MiB of flash, 8 KiB of wear-leveling
  backing store and a 4 KiB secret region, so that the region starts at offset 2084864.
\<close>

definition example_cfg :: config where
  "example_cfg =
     \<lparr>PICO_FLASH_SIZE_BYTES = 2097152, WEAR_LEVELING_BACKING_SIZE = 8192,
      SECRET_STORAGE_SIZE = 4096, FLASH_SECTOR_SIZE = 4096, FLASH_PAGE_SIZE = 256,
      XIP_BASE = 0x10000000, KC_ESC = 0x29\<rparr>"

text \<open>An idle engine over a flash in which every byte holds the low byte of its offset.\<close>

definition example_state :: state where
  "example_state =
     \<lparr>secret_busy = False, secret_abort = False, secret_sector_buf = replicate 4096 0,
      flash = (\<lambda>a. ucast a)\<rparr>"

text \<open>
  The specification's example requests: a WRITE of the 26 bytes 1 to 26 at offset 0, and
  the READ of 26 bytes at offset 0.
\<close>

definition example_write_frame :: "u8 list" where
  "example_write_frame =
     [0xA2, 0, 0, 0, 0, 26,
      1, 2, 3, 4, 5, 6, 7, 8, 9, 10, 11, 12, 13, 14, 15, 16, 17, 18, 19, 20, 21, 22, 23, 24, 25, 26]"

definition example_read_frame :: "u8 list" where
  "example_read_frame = [0xA1, 0, 0, 0, 0, 26] @ replicate 26 0"

text \<open>
  The same WRITE behind the report ID 0: the size byte still says 26, and the frame has
  room for 25 payload bytes only.
\<close>

definition prefixed_write_frame :: "u8 list" where
  "prefixed_write_frame =
     [0x00, 0xA2, 0, 0, 0, 0, 26,
      1, 2, 3, 4, 5, 6, 7, 8, 9, 10, 11, 12, 13, 14, 15, 16, 17, 18, 19, 20, 21, 22, 23, 24, 25]"

text \<open>
  Requests whose offset plus size passes \<open>2 ^ 32\<close>: a READ of 28 bytes and a WRITE of
  the two bytes 0xAA, 0xBB at offset \<open>0xFFFFFFFF\<close>, and an ERASE of \<open>0x2000\<close> bytes at
  offset \<open>0xFFFFF000\<close>.
\<close>

definition wrapped_read_frame :: "u8 list" where
  "wrapped_read_frame = [0xA1, 0xFF, 0xFF, 0xFF, 0xFF, 28] @ replicate 26 0"

definition wrapped_write_frame :: "u8 list" where
  "wrapped_write_frame = [0xA2, 0xFF, 0xFF, 0xFF, 0xFF, 2, 0xAA, 0xBB] @ replicate 24 0"

definition wrapped_erase_frame :: "u8 list" where
  "wrapped_erase_frame =
     [0xA3, 0xFF, 0xFF, 0xF0, 0x00, 0x00, 0x00, 0x20, 0x00] @ replicate 23 0"

text \<open>
  A build with a secret region of two sectors, and in it a WRITE of 26 bytes at offset
  4090, which crosses the sector boundary after 6 bytes, and an ERASE of both sectors.
\<close>

definition two_sector_cfg :: config where
  "two_sector_cfg =
     \<lparr>PICO_FLASH_SIZE_BYTES = 2097152, WEAR_LEVELING_BACKING_SIZE = 8192,
      SECRET_STORAGE_SIZE = 8192, FLASH_SECTOR_SIZE = 4096, FLASH_PAGE_SIZE = 256,
      XIP_BASE = 0x10000000, KC_ESC = 0x29\<rparr>"

definition crossing_write_frame :: "u8 list" where
  "crossing_write_frame =
     [0xA2, 0x00, 0x00, 0x0F, 0xFA, 26,
      1, 2, 3, 4, 5, 6, 7, 8, 9, 10, 11, 12, 13, 14, 15, 16, 17, 18, 19, 20, 21, 22, 23, 24, 25, 26]"

definition two_sector_erase_frame :: "u8 list" where
  "two_sector_erase_frame =
     [0xA3, 0x00, 0x00, 0x00, 0x00, 0x00, 0x00, 0x20, 0x00] @ replicate 23 0"

section \<open>Basic facts\<close>

lemmas cmd_defs =
  SECRET_CMD_INFO_def SECRET_CMD_READ_def SECRET_CMD_WRITE_def SECRET_CMD_ERASE_def

lemmas status_defs =
  SECRET_STATUS_OK_def SECRET_STATUS_ERR_def SECRET_STATUS_BUSY_def
  SECRET_STATUS_RANGE_def SECRET_STATUS_ALIGN_def SECRET_STATUS_ABORT_def

lemma example_geometry: "flash_geometry example_cfg"
  unfolding flash_geometry_def
proof (rule bexI [of _ 12], rule bexI [of _ 8])
  show "FLASH_SECTOR_SIZE example_cfg = 2 ^ 12 \<and> FLASH_PAGE_SIZE example_cfg = 2 ^ 8"
    by (simp add: example_cfg_def)
qed simp_all

lemma example_cfg_ok: "config_ok example_cfg"
  using example_geometry
  by (simp add: config_ok_def static_asserts_def example_cfg_def SECRET_STORAGE_BASE_def)

subsection \<open>Buffers\<close>

lemma length_memcpy_into:
  "off + length bytes \<le> length dst \<Longrightarrow> length (memcpy_into dst off bytes) = length dst"
  by (simp add: memcpy_into_def)

lemma nth_memcpy_into:
  "off + length bytes \<le> length dst \<Longrightarrow> i < length dst \<Longrightarrow>
   memcpy_into dst off bytes ! i =
     (if i < off then dst ! i else if i < off + length bytes then bytes ! (i - off) else dst ! i)"
  by (auto simp add: memcpy_into_def nth_append)

lemma cleared_frame:
  assumes "length data = 32"
  shows "memset_at data (Suc 0) 0 31 = data ! 0 # replicate 31 0"
proof -
  from assms obtain x xs where "data = x # xs" by (cases data) auto
  with assms show ?thesis by (simp add: memset_at_def memcpy_into_def)
qed

lemma clear_response_eq:
  assumes "length data = 32" "req ! 0 = data ! 0"
  shows "clear_response data req base = data ! 0 # replicate 31 0"
  using assms by (simp add: clear_response_def cleared_frame)

lemma length_write_u32_be [simp]: "length (write_u32_be p i v) = length p"
  by (simp add: write_u32_be_def)

lemma nth_write_u32_be_other:
  "j < i \<or> i + 3 < j \<Longrightarrow> write_u32_be p i v ! j = p ! j"
  by (auto simp add: write_u32_be_def)

lemma ff_mask: "(0xFF::u32) = mask 8"
  by (simp add: mask_eq_exp_minus_1)

lemma be_bytes:
  "push_bit 24 (ucast (ucast (drop_bit 24 v AND 0xFF :: u32) :: u8))
     OR push_bit 16 (ucast (ucast (drop_bit 16 v AND 0xFF :: u32) :: u8))
     OR push_bit 8 (ucast (ucast (drop_bit 8 v AND 0xFF :: u32) :: u8))
     OR ucast (ucast (v AND 0xFF :: u32) :: u8) = (v :: u32)"
  unfolding ff_mask
proof (rule bit_eqI)
  fix n :: nat
  consider "n < 8" | "8 \<le> n" "n < 16" | "16 \<le> n" "n < 24" | "24 \<le> n" by linarith
  then show "bit (push_bit 24 (ucast (ucast (drop_bit 24 v AND mask 8 :: u32) :: u8))
     OR push_bit 16 (ucast (ucast (drop_bit 16 v AND mask 8 :: u32) :: u8))
     OR push_bit 8 (ucast (ucast (drop_bit 8 v AND mask 8 :: u32) :: u8))
     OR ucast (ucast (v AND mask 8 :: u32) :: u8) :: u32) n = bit v n"
    by cases (auto simp add: bit_simps dest: bit_imp_le_length)
qed

lemma read_write_u32_be:
  "i + 3 < length p \<Longrightarrow> read_u32_be (write_u32_be p i v) i = v"
  using be_bytes [of v]
  by (simp add: read_u32_be_def write_u32_be_def)

lemma read_u32_be_update_other:
  "k < i \<or> i + 3 < k \<Longrightarrow> read_u32_be (p[k := x]) i = read_u32_be p i"
  by (auto simp add: read_u32_be_def)

lemma read_u32_be_write_other:
  "j + 3 < i \<or> i + 3 < j \<Longrightarrow> read_u32_be (write_u32_be p j v) i = read_u32_be p i"
  by (auto simp add: read_u32_be_def nth_write_u32_be_other)

lemma secret_read_bytes_nth_0:
  "0 < di \<Longrightarrow> secret_read_bytes cfg st off (x # xs) di len ! 0 = x"
  by (cases di) (simp_all add: secret_read_bytes_def memcpy_into_def)

subsection \<open>Classification\<close>

lemma classify_cases:
  "classify r = Some (b, c) \<Longrightarrow> (b = 0 \<or> b = 1) \<and> c = r ! b \<and> is_command c"
  by (auto simp add: classify_def is_command_def Let_def split: if_splits)

lemma classify_Some_iff:
  "classify r = Some (b, c) \<longleftrightarrow>
     (b = 0 \<and> c = r ! 0 \<and> is_command (r ! 0)) \<or>
     (b = 1 \<and> c = r ! 1 \<and> \<not> is_command (r ! 0) \<and> is_command (r ! 1))"
  by (auto simp add: classify_def is_command_def Let_def split: if_splits)

lemma classify_None_iff:
  "classify r = None \<longleftrightarrow> \<not> is_command (r ! 0) \<and> \<not> is_command (r ! 1)"
  by (auto simp add: classify_def is_command_def Let_def split: if_splits)

lemma dispatch_echo:
  assumes "length data = 32" "req ! 0 = data ! 0" "base = 0 \<or> base = 1"
    and "dispatch cfg env st req data base cmd = Returns st' d"
  shows "d ! 0 = data ! 0"
  using assms(3,4)
  by (auto simp add: dispatch_def clear_response_eq [OF assms(1,2)] Let_def info_bytes_def
        nth_write_u32_be_other secret_read_bytes_nth_0
      split: if_splits option.splits sum.splits prod.splits)

subsection \<open>The INFO response\<close>

lemma info_response:
  assumes "length data = 32" and "classify data = Some (base, SECRET_CMD_INFO)"
  shows "raw_hid_receive_kb cfg env st data =
           Returns st (info_bytes cfg base (data ! 0 # replicate 31 0))"
  using assms
  by (simp add: raw_hid_receive_kb_def dispatch_def clear_response_eq)

lemma info_bytes_layout:
  assumes "length d = 32" "base \<le> 1"
  shows "info_bytes cfg base d ! (base + 1) = SECRET_STATUS_OK"
    and "read_u32_be (info_bytes cfg base d) (base + 2) = SECRET_STORAGE_SIZE cfg"
    and "read_u32_be (info_bytes cfg base d) (base + 6) = PICO_FLASH_SIZE_BYTES cfg"
    and "read_u32_be (info_bytes cfg base d) (base + 10) = WEAR_LEVELING_BACKING_SIZE cfg"
    and "read_u32_be (info_bytes cfg base d) (base + 14) = SECRET_STORAGE_BASE cfg"
    and "info_bytes cfg base d ! (base + 18) = SECRET_MAX_READ"
    and "info_bytes cfg base d ! (base + 19) = SECRET_MAX_WRITE"
    and "length (info_bytes cfg base d) = 32"
  using assms
  by (simp_all add: info_bytes_def read_u32_be_update_other read_u32_be_write_other
        read_write_u32_be nth_write_u32_be_other)

section \<open>Word arithmetic\<close>

lemma unat_2p:
  assumes "k < 32"
  shows "unat (2 ^ k :: u32) = 2 ^ k"
proof -
  have "(2 :: u32) ^ k = of_nat (2 ^ k)" by simp
  then have "unat ((2 :: u32) ^ k) = 2 ^ k mod 2 ^ 32"
    by (simp only: unat_of_nat) simp
  moreover have "(2 :: nat) ^ k < 2 ^ 32"
    by (rule power_strict_increasing) (use assms in simp_all)
  ultimately show ?thesis by simp
qed

lemma range_split:
  fixes x c :: u32
  assumes "unat c + n \<le> 2 ^ 32"
  shows "(unat (x - c) < n) = (unat c \<le> unat x \<and> unat x < unat c + n)"
proof (cases "unat c \<le> unat x")
  case True
  then show ?thesis by (auto simp add: unat_sub_if')
next
  case False
  have "unat x < 2 ^ 32" using unsigned_less [of x] by simp
  with False assms show ?thesis by (simp add: unat_sub_if')
qed

lemma sector_start_eq:
  fixes addr :: u32
  shows "addr AND NOT (2 ^ k - 1) = push_bit k (drop_bit k addr)"
  unfolding mask_eq_decr_exp [symmetric]
  by (rule bit_eqI) (auto simp add: bit_simps)

lemma sector_offset_eq:
  fixes addr :: u32
  shows "addr - (addr AND NOT (2 ^ k - 1)) = take_bit k addr"
proof -
  have "push_bit k (drop_bit k addr) + take_bit k addr = addr" by (rule bits_ident)
  then show ?thesis unfolding sector_start_eq by (simp add: algebra_simps)
qed

lemma unat_sector_offset:
  fixes addr :: u32
  shows "unat (addr - (addr AND NOT (2 ^ k - 1))) = unat addr mod 2 ^ k"
proof -
  have "unat (take_bit k addr) = take_bit k (unat addr)" by (rule unsigned_take_bit_eq)
  also have "\<dots> = unat addr mod 2 ^ k" by (rule take_bit_eq_mod)
  finally show ?thesis unfolding sector_offset_eq .
qed

lemma unat_mod_2p:
  fixes x :: u32
  shows "k < 32 \<Longrightarrow> (x mod 2 ^ k = 0) = (2 ^ k dvd unat x)"
  by (simp add: unat_eq_zero [symmetric] unat_mod unat_2p mod_eq_0_iff_dvd del: unat_eq_zero)

lemma geometryE:
  assumes "flash_geometry cfg"
  obtains k m where "k < 32" "m \<le> k"
    "FLASH_SECTOR_SIZE cfg = 2 ^ k" "FLASH_PAGE_SIZE cfg = 2 ^ m"
proof -
  from assms obtain k m where km: "k \<in> set [0..<32]" "m \<in> set [0..<Suc k]"
    and "FLASH_SECTOR_SIZE cfg = 2 ^ k" "FLASH_PAGE_SIZE cfg = 2 ^ m"
    unfolding flash_geometry_def by blast
  moreover from km have "k < 32" "m \<le> k" by auto
  ultimately show thesis using that by blast
qed

section \<open>The flash engine\<close>

subsection \<open>Programming a sector\<close>

lemma program_loop_from:
  assumes S: "FLASH_SECTOR_SIZE cfg = 2 ^ k" and P: "FLASH_PAGE_SIZE cfg = 2 ^ m"
    and mk: "m \<le> k" and k: "k < 32"
    and i: "unat i = j * 2 ^ m" and le: "unat i \<le> 2 ^ k"
    and len: "length (secret_sector_buf st) = 2 ^ k"
  shows "program_loop cfg st ss i =
           Some (st\<lparr>flash := (\<lambda>a. if unat i \<le> unat (a - ss) \<and> unat (a - ss) < 2 ^ k
                                 then flash st a AND secret_sector_buf st ! unat (a - ss)
                                 else flash st a)\<rparr>)"
  using i le len
proof (induction "2 ^ k - unat i" arbitrary: i j st rule: less_induct)
  case less
  have uS: "unat (FLASH_SECTOR_SIZE cfg) = 2 ^ k" using S k by (simp add: unat_2p)
  have uP: "unat (FLASH_PAGE_SIZE cfg) = 2 ^ m" using P k mk by (simp add: unat_2p)
  have k32: "(2::nat) ^ k < 2 ^ 32" by (rule power_strict_increasing) (use k in simp_all)
  have mlek: "(2::nat) ^ m \<le> 2 ^ k" by (rule power_increasing) (use mk in simp_all)
  show ?case
  proof (cases "i < FLASH_SECTOR_SIZE cfg")
    case False
    then have "unat i = 2 ^ k" using less.prems(2) uS by (simp add: word_less_nat_alt)
    then have "(\<lambda>a. if unat i \<le> unat (a - ss) \<and> unat (a - ss) < 2 ^ k
                     then flash st a AND secret_sector_buf st ! unat (a - ss)
                     else flash st a) = flash st"
      by (auto simp add: fun_eq_iff)
    then show ?thesis using False by (subst program_loop.simps) simp
  next
    case True
    then have lt: "unat i < 2 ^ k" using uS by (simp add: word_less_nat_alt)
    have dvd: "2 ^ m dvd (2::nat) ^ k" using mk by (simp add: le_imp_power_dvd)
    have "2 ^ m dvd unat i" using less.prems(1) by simp
    with dvd lt have room: "unat i + 2 ^ m \<le> 2 ^ k"
      by (metis dvd_diff_nat less_imp_le_nat nat_dvd_not_less add.commute le_diff_conv2 not_less zero_less_diff)
    define page where "page = take (unat (FLASH_PAGE_SIZE cfg)) (drop (unat i) (secret_sector_buf st))"
    let ?st1 = "flash_range_program st (ss + i) page"
    let ?i' = "i + FLASH_PAGE_SIZE cfg"
    have lp: "length page = 2 ^ m" using room less.prems(3) uP by (simp add: page_def)
    have ui': "unat ?i' = unat i + 2 ^ m"
      using room k32 uP by (simp add: unat_word_ariths)
    have j': "unat ?i' = Suc j * 2 ^ m" using ui' less.prems(1) by simp
    have buf1: "secret_sector_buf ?st1 = secret_sector_buf st"
      by (simp add: flash_range_program_def)
    have IH: "program_loop cfg ?st1 ss ?i' =
           Some (?st1\<lparr>flash := (\<lambda>a. if unat ?i' \<le> unat (a - ss) \<and> unat (a - ss) < 2 ^ k
                                 then flash ?st1 a AND secret_sector_buf ?st1 ! unat (a - ss)
                                 else flash ?st1 a)\<rparr>)"
    proof (rule less.hyps [OF _ j'])
      have "(0::nat) < 2 ^ m" by simp
      then show "2 ^ k - unat ?i' < 2 ^ k - unat i" using ui' lt by linarith
      show "unat ?i' \<le> 2 ^ k" using ui' room by simp
      show "length (secret_sector_buf ?st1) = 2 ^ k" using buf1 less.prems(3) by simp
    qed
    have fl: "(\<lambda>a. if unat ?i' \<le> unat (a - ss) \<and> unat (a - ss) < 2 ^ k
                                 then flash ?st1 a AND secret_sector_buf ?st1 ! unat (a - ss)
                                 else flash ?st1 a) =
              (\<lambda>a. if unat i \<le> unat (a - ss) \<and> unat (a - ss) < 2 ^ k
                                 then flash st a AND secret_sector_buf st ! unat (a - ss)
                                 else flash st a)"
    proof (rule ext)
      fix a
      define x where "x = unat (a - ss)"
      have sub: "a - (ss + i) = (a - ss) - i" by simp
      have rs: "(unat (a - (ss + i)) < 2 ^ m) = (unat i \<le> x \<and> x < unat i + 2 ^ m)"
        unfolding sub x_def by (rule range_split) (use room k32 in simp)
      have pg: "page ! unat (a - (ss + i)) = secret_sector_buf st ! x"
        if a1: "unat i \<le> x" and a2: "x < unat i + 2 ^ m"
      proof -
        have "unat (a - (ss + i)) = x - unat i"
          unfolding sub x_def using a1 by (simp add: unat_sub word_le_nat_alt x_def)
        then show ?thesis using a1 a2 room less.prems(3) uP by (simp add: page_def)
      qed
      have f1: "flash ?st1 a = (if unat i \<le> x \<and> x < unat i + 2 ^ m
                                then flash st a AND secret_sector_buf st ! x else flash st a)"
        using pg by (simp add: flash_range_program_def lp rs)
      show "(if unat ?i' \<le> unat (a - ss) \<and> unat (a - ss) < 2 ^ k
             then flash ?st1 a AND secret_sector_buf ?st1 ! unat (a - ss)
             else flash ?st1 a) =
            (if unat i \<le> unat (a - ss) \<and> unat (a - ss) < 2 ^ k
             then flash st a AND secret_sector_buf st ! unat (a - ss)
             else flash st a)"
        unfolding f1 buf1 ui' x_def [symmetric] using room by auto
    qed
    have "program_loop cfg st ss i = program_loop cfg ?st1 ss ?i'"
      using True by (subst program_loop.simps) (simp add: page_def)
    also note IH
    also have "?st1\<lparr>flash := (\<lambda>a. if unat ?i' \<le> unat (a - ss) \<and> unat (a - ss) < 2 ^ k
                                 then flash ?st1 a AND secret_sector_buf ?st1 ! unat (a - ss)
                                 else flash ?st1 a)\<rparr> =
               st\<lparr>flash := (\<lambda>a. if unat i \<le> unat (a - ss) \<and> unat (a - ss) < 2 ^ k
                                 then flash st a AND secret_sector_buf st ! unat (a - ss)
                                 else flash st a)\<rparr>"
      unfolding fl by (simp add: flash_range_program_def)
    finally show ?thesis .
  qed
qed

lemma all_ones_and: "(- 1 :: u8) AND x = x"
  by simp

lemma sector_rewrite:
  fixes addr :: u32 and st :: state and cfg :: config and bytes :: "u8 list"
  assumes S: "FLASH_SECTOR_SIZE cfg = 2 ^ k" and P: "FLASH_PAGE_SIZE cfg = 2 ^ m"
    and mk: "m \<le> k" and k: "k < 32"
    and fit: "unat addr mod 2 ^ k + length bytes \<le> 2 ^ k"
  defines "ss \<equiv> addr AND NOT (FLASH_SECTOR_SIZE cfg - 1)"
  defines "buf2 \<equiv> memcpy_into (xip_read cfg st (XIP_BASE cfg + ss) (unat (FLASH_SECTOR_SIZE cfg)))
                     (unat (addr - ss)) bytes"
  shows "program_loop cfg
           (flash_range_erase (st\<lparr>secret_sector_buf := buf2\<rparr>) ss (FLASH_SECTOR_SIZE cfg)) ss 0 =
         Some (st\<lparr>secret_sector_buf := buf2,
                  flash := (\<lambda>a. if unat (a - addr) < length bytes then bytes ! unat (a - addr)
                                 else flash st a)\<rparr>)"
proof -
  define off where "off = unat addr mod 2 ^ k"
  have uS: "unat (FLASH_SECTOR_SIZE cfg) = 2 ^ k" using S k by (simp add: unat_2p)
  have k32: "(2::nat) ^ k < 2 ^ 32" by (rule power_strict_increasing) (use k in simp_all)
  have uso: "unat (addr - ss) = off" unfolding ss_def S off_def by (rule unat_sector_offset)
  define buf1 where "buf1 = xip_read cfg st (XIP_BASE cfg + ss) (unat (FLASH_SECTOR_SIZE cfg))"
  have l1: "length buf1 = 2 ^ k" by (simp add: buf1_def xip_read_def uS)
  have l2: "length buf2 = 2 ^ k"
    unfolding buf2_def buf1_def [symmetric] uso
    using fit l1 by (simp add: length_memcpy_into off_def)
  let ?st3 = "flash_range_erase (st\<lparr>secret_sector_buf := buf2\<rparr>) ss (FLASH_SECTOR_SIZE cfg)"
  have b3: "secret_sector_buf ?st3 = buf2" by (simp add: flash_range_erase_def)
  have "program_loop cfg ?st3 ss 0 =
          Some (?st3\<lparr>flash := (\<lambda>a. if unat (0::u32) \<le> unat (a - ss) \<and> unat (a - ss) < 2 ^ k
                                 then flash ?st3 a AND secret_sector_buf ?st3 ! unat (a - ss)
                                 else flash ?st3 a)\<rparr>)"
    by (rule program_loop_from [OF S P mk k, where j = 0]) (simp_all add: b3 l2)
  moreover have "(\<lambda>a. if unat (0::u32) \<le> unat (a - ss) \<and> unat (a - ss) < 2 ^ k
                                 then flash ?st3 a AND secret_sector_buf ?st3 ! unat (a - ss)
                                 else flash ?st3 a) =
                 (\<lambda>a. if unat (a - addr) < length bytes then bytes ! unat (a - addr)
                                 else flash st a)"
  proof (rule ext)
    fix a
    define x where "x = unat (a - ss)"
    have sub: "a - addr = (a - ss) - (addr - ss)" by simp
    have rs: "(unat (a - addr) < length bytes) = (off \<le> x \<and> x < off + length bytes)"
      unfolding sub x_def uso [symmetric]
      by (rule range_split) (use fit k32 uso off_def in simp)
    have ua: "unat (a - addr) = x - off" if "off \<le> x"
    proof -
      have "addr - ss \<le> a - ss"
        unfolding word_le_nat_alt uso using that by (simp only: x_def)
      then have "unat ((a - ss) - (addr - ss)) = unat (a - ss) - unat (addr - ss)"
        by (rule unat_sub)
      then show ?thesis unfolding sub [symmetric] uso x_def .
    qed
    have f3: "flash ?st3 a = (if x < 2 ^ k then - 1 else flash st a)"
      by (simp add: flash_range_erase_def word_less_nat_alt uS x_def)
    have a_eq: "ss + of_nat x = a" by (simp add: x_def)
    have b1: "buf1 ! x = flash st a" if "x < 2 ^ k"
      using that a_eq by (simp add: buf1_def xip_read_def uS add.assoc)
    have b2: "buf2 ! x = (if off \<le> x \<and> x < off + length bytes then bytes ! (x - off)
                          else flash st a)" if "x < 2 ^ k"
      unfolding buf2_def buf1_def [symmetric] uso
      using that fit l1 b1 by (auto simp add: nth_memcpy_into off_def)
    show "(if unat (0::u32) \<le> unat (a - ss) \<and> unat (a - ss) < 2 ^ k
           then flash ?st3 a AND secret_sector_buf ?st3 ! unat (a - ss)
           else flash ?st3 a) =
          (if unat (a - addr) < length bytes then bytes ! unat (a - addr) else flash st a)"
      unfolding b3 x_def [symmetric] f3 rs
      using b2 ua fit by (auto simp add: off_def)
  qed
  ultimately show ?thesis by (simp add: flash_range_erase_def)
qed

subsection \<open>Key events during an operation\<close>

lemma deliver_busy:
  "secret_busy st \<Longrightarrow>
   deliver cfg st evs = (if esc_pressed cfg evs then st\<lparr>secret_abort := True\<rparr> else st)"
proof (induction evs arbitrary: st)
  case Nil
  then show ?case by (simp add: deliver_def esc_pressed_def)
next
  case (Cons ev evs)
  let ?st1 = "snd (secret_storage_process_record_user cfg st (fst ev) (snd ev))"
  have d: "deliver cfg st (ev # evs) = deliver cfg ?st1 evs" by (simp add: deliver_def)
  have b1: "secret_busy ?st1"
    using Cons.prems by (simp add: secret_storage_process_record_user_def)
  show ?case
    unfolding d Cons.IH [OF b1]
    using Cons.prems
    by (simp add: secret_storage_process_record_user_def esc_pressed_def)
qed

lemma poll_busy:
  "secret_busy st \<Longrightarrow>
   poll cfg st env =
     (case env of [] \<Rightarrow> (st, [])
      | b # bs \<Rightarrow> (if esc_pressed cfg b then st\<lparr>secret_abort := True\<rparr> else st, bs))"
  by (simp add: poll_def deliver_busy split: list.splits)

lemma finish_busy:
  assumes "secret_busy st"
  shows "finish cfg st env =
           st\<lparr>secret_busy := False,
              secret_abort := (secret_abort st \<or> first_abort cfg env = Some 0)\<rparr>"
  using assms by (cases env) (auto simp add: finish_def poll_busy)

lemma unat_add_mod_2p:
  fixes a b :: u32
  assumes "k < 32"
  shows "unat (a + b) mod 2 ^ k = (unat a + unat b) mod 2 ^ k"
proof -
  have "(2::nat) ^ k dvd 2 ^ 32" by (rule le_imp_power_dvd) (use assms in simp)
  then have "(unat a + unat b) mod 2 ^ 32 mod 2 ^ k = (unat a + unat b) mod 2 ^ k"
    by (rule mod_mod_cancel)
  then show ?thesis by (simp add: unat_word_ariths)
qed

subsection \<open>The write loop\<close>

lemma write_loop_step:
  fixes addr len :: u32
  assumes S: "FLASH_SECTOR_SIZE cfg = 2 ^ k" and P: "FLASH_PAGE_SIZE cfg = 2 ^ m"
    and mk: "m \<le> k" and k: "k < 32"
    and pos: "len \<noteq> 0"
    and pl: "poll cfg st env = (st1, env1)" and na: "\<not> secret_abort st1"
    and fit: "src + min (2 ^ k - unat addr mod 2 ^ k) (unat len) \<le> length req"
  obtains buf chunk where
    "unat chunk = min (2 ^ k - unat addr mod 2 ^ k) (unat len)"
    "chunk \<le> len"
    "write_loop cfg req st env addr src len =
       write_loop cfg req
         (st1\<lparr>secret_sector_buf := buf,
              flash := (\<lambda>a. if unat (a - addr) < unat chunk then req ! (src + unat (a - addr))
                             else flash st1 a)\<rparr>)
         env1 (addr + chunk) (src + unat chunk) (len - chunk)"
proof -
  define off where "off = unat addr mod 2 ^ k"
  define ss where "ss = addr AND NOT (FLASH_SECTOR_SIZE cfg - 1)"
  define chunk0 where "chunk0 = FLASH_SECTOR_SIZE cfg - (addr - ss)"
  define chunk where "chunk = (if chunk0 > len then len else chunk0)"
  define bytes where "bytes = take (unat chunk) (drop src req)"
  define buf where "buf = memcpy_into
      (xip_read cfg st1 (XIP_BASE cfg + ss) (unat (FLASH_SECTOR_SIZE cfg))) (unat (addr - ss)) bytes"
  have uS: "unat (FLASH_SECTOR_SIZE cfg) = 2 ^ k" using S k by (simp add: unat_2p)
  have uso: "unat (addr - ss) = off" unfolding ss_def S off_def by (rule unat_sector_offset)
  have offlt: "off < 2 ^ k" by (simp add: off_def)
  have "addr - ss \<le> FLASH_SECTOR_SIZE cfg"
    unfolding word_le_nat_alt uso uS using offlt by simp
  then have "unat chunk0 = unat (FLASH_SECTOR_SIZE cfg) - unat (addr - ss)"
    unfolding chunk0_def by (rule unat_sub)
  then have uc0: "unat chunk0 = 2 ^ k - off" by (simp only: uS uso)
  have uc: "unat chunk = min (2 ^ k - off) (unat len)"
    using uc0 by (auto simp add: chunk_def word_less_nat_alt)
  have cl: "chunk \<le> len" using uc by (simp add: word_le_nat_alt)
  have fit': "src + unat chunk \<le> length req" using fit uc by (simp add: off_def)
  have lb: "length bytes = unat chunk" using fit' by (simp add: bytes_def)
  have ft: "fetch req src (unat chunk) = Some bytes"
    using fit' by (simp add: fetch_def bytes_def)
  have nb: "bytes ! y = req ! (src + y)" if "y < unat chunk" for y
    using that fit' by (simp add: bytes_def)
  have "off + length bytes \<le> 2 ^ k"
    using lb uc offlt by simp
  then have fit2: "unat addr mod 2 ^ k + length bytes \<le> 2 ^ k"
    unfolding off_def .
  have prog: "program_loop cfg
           (flash_range_erase (st1\<lparr>secret_sector_buf := buf\<rparr>) ss (FLASH_SECTOR_SIZE cfg)) ss 0 =
         Some (st1\<lparr>secret_sector_buf := buf,
                  flash := (\<lambda>a. if unat (a - addr) < length bytes then bytes ! unat (a - addr)
                                 else flash st1 a)\<rparr>)"
    unfolding buf_def ss_def by (rule sector_rewrite [OF S P mk k fit2])
  have fl: "(\<lambda>a. if unat (a - addr) < length bytes then bytes ! unat (a - addr) else flash st1 a) =
            (\<lambda>a. if unat (a - addr) < unat chunk then req ! (src + unat (a - addr)) else flash st1 a)"
    using nb by (auto simp add: lb fun_eq_iff)
  have eq1: "write_loop cfg req st env addr src len =
       (case fetch req src (unat chunk) of
          None \<Rightarrow> Some (Inl (ReqOverread (src + unat chunk - 1)))
        | Some bytes \<Rightarrow>
            Option.bind
              (program_loop cfg
                 (flash_range_erase
                    (st1\<lparr>secret_sector_buf := memcpy_into
                        (xip_read cfg st1 (XIP_BASE cfg + ss) (unat (FLASH_SECTOR_SIZE cfg)))
                        (unat (addr - ss)) bytes\<rparr>)
                    ss (FLASH_SECTOR_SIZE cfg))
                 ss 0)
              (\<lambda>st4. write_loop cfg req st4 env1 (addr + chunk) (src + unat chunk) (len - chunk)))"
    unfolding chunk_def chunk0_def ss_def
    apply (subst write_loop.simps)
    using pos pl na
    apply (simp add: Let_def word_greater_zero_iff cong: option.case_cong)
    done
  have eq2: "write_loop cfg req st env addr src len =
       write_loop cfg req
         (st1\<lparr>secret_sector_buf := buf,
              flash := (\<lambda>a. if unat (a - addr) < unat chunk then req ! (src + unat (a - addr))
                             else flash st1 a)\<rparr>)
         env1 (addr + chunk) (src + unat chunk) (len - chunk)"
    unfolding eq1 ft using prog by (simp add: buf_def [symmetric] fl)
  with uc cl show thesis using that unfolding off_def by blast
qed

lemma progress_step:
  fixes addr len chunk :: u32
  assumes S: "FLASH_SECTOR_SIZE cfg = 2 ^ k" and k: "k < 32"
    and uc: "unat chunk = min (2 ^ k - unat addr mod 2 ^ k) (unat len)"
    and fa: "first_abort cfg env = map_option Suc (first_abort cfg env1)"
    and pos: "len \<noteq> 0"
  shows "write_progress cfg env addr len =
           unat chunk + write_progress cfg env1 (addr + chunk) (len - chunk)"
    and "write_aborted cfg env addr len = write_aborted cfg env1 (addr + chunk) (len - chunk)"
proof -
  define K :: nat where "K = 2 ^ k"
  define off where "off = unat addr mod K"
  define L where "L = unat len"
  have Kpos: "0 < K" by (simp add: K_def)
  have uS: "unat (FLASH_SECTOR_SIZE cfg) = K" using S k by (simp add: unat_2p K_def)
  have offlt: "off < K" using Kpos by (simp add: off_def)
  have uc': "unat chunk = min (K - off) L" using uc by (simp add: K_def off_def L_def)
  have "chunk \<le> len" using uc by (simp add: word_le_nat_alt)
  then have ul: "unat (len - chunk) = L - unat chunk" by (simp add: unat_sub L_def)
  have off': "unat (addr + chunk) mod K = (off + unat chunk) mod K"
    unfolding K_def off_def using unat_add_mod_2p [OF k, of addr chunk]
    by (simp add: mod_add_left_eq)
  have ce: "chunk_end cfg addr j = (if j = 0 then 0 else j * K - off)" for j
    by (simp add: chunk_end_def uS off_def)
  have ce': "chunk_end cfg (addr + chunk) j =
               (if j = 0 then 0 else j * K - (off + unat chunk) mod K)" for j
    by (simp add: chunk_end_def uS off')
  show "write_progress cfg env addr len =
           unat chunk + write_progress cfg env1 (addr + chunk) (len - chunk)"
  proof (cases "first_abort cfg env1")
    case None
    then show ?thesis using fa ul uc' by (simp add: write_progress_def L_def)
  next
    case (Some j)
    show ?thesis
    proof (cases "K - off \<le> L")
      case True
      then have c: "unat chunk = K - off" using uc' by simp
      have z: "(off + (K - off)) mod K = 0" using offlt by simp
      have "Suc j * K - off = (K - off) + j * K" using offlt by simp
      then show ?thesis
        using Some fa ul c True
        by (simp add: write_progress_def ce ce' z L_def [symmetric] min_def)
           (intro conjI impI; linarith)
    next
      case False
      then have c: "unat chunk = L" using uc' by simp
      have "K - off \<le> Suc j * K - off" by simp
      with False have "L \<le> Suc j * K - off" by linarith
      then show ?thesis
        using Some fa ul c
        by (simp add: write_progress_def ce L_def [symmetric])
    qed
  qed
  show "write_aborted cfg env addr len = write_aborted cfg env1 (addr + chunk) (len - chunk)"
  proof (cases "first_abort cfg env1")
    case None
    then show ?thesis using fa by (simp add: write_aborted_def)
  next
    case (Some j)
    show ?thesis
    proof (cases "K - off \<le> L")
      case True
      then have c: "unat chunk = K - off" using uc' by simp
      have z: "(off + (K - off)) mod K = 0" using offlt by simp
      have "j * K - off = (K - off) + (j - 1) * K" if "j \<noteq> 0"
      proof -
        from that obtain i where "j = Suc i" by (cases j) auto
        then show ?thesis using offlt by simp
      qed
      then show ?thesis
        using Some fa ul c True offlt
        by (cases "j = 0"; cases "j = 1")
           (auto simp add: write_aborted_def ce ce' z L_def [symmetric]; linarith)+
    next
      case False
      then have c: "unat chunk = L" using uc' by simp
      have "L < j * K - off" if "j \<noteq> 0"
      proof -
        from that obtain i where "j = Suc i" by (cases j) auto
        then have "K - off \<le> j * K - off" by simp
        with False show ?thesis by linarith
      qed
      moreover have "0 < L" using pos by (simp add: L_def unat_gt_0)
      ultimately show ?thesis
        using Some fa ul c
        by (auto simp add: write_aborted_def ce ce' L_def [symmetric])
    qed
  qed
qed

lemma poll_cases [consumes 1, case_names esc go]:
  assumes "secret_busy st"
  obtains (esc) b bs where "env = b # bs" "esc_pressed cfg b"
      "poll cfg st env = (st\<lparr>secret_abort := True\<rparr>, bs)" "first_abort cfg env = Some 0"
    | (go) env1 where "poll cfg st env = (st, env1)"
      "first_abort cfg env = map_option Suc (first_abort cfg env1)"
proof (cases env)
  case Nil
  then show ?thesis using assms go [of "[]"] by (simp add: poll_busy)
next
  case (Cons b bs)
  then show ?thesis using assms esc [of b bs] go [of bs] by (cases "esc_pressed cfg b") (simp_all add: poll_busy)
qed

lemma write_loop_run:
  fixes addr len :: u32
  assumes S: "FLASH_SECTOR_SIZE cfg = 2 ^ k" and P: "FLASH_PAGE_SIZE cfg = 2 ^ m"
    and mk: "m \<le> k" and k: "k < 32"
    and busy: "secret_busy st" and nab: "\<not> secret_abort st"
    and fit: "src + unat len \<le> length req"
  shows "\<exists>st' env'.
           write_loop cfg req st env addr src len =
             Some (Inr (write_progress cfg env addr len = unat len, st', env')) \<and>
           flash st' = (\<lambda>a. if unat (a - addr) < write_progress cfg env addr len
                              then req ! (src + unat (a - addr)) else flash st a) \<and>
           secret_busy st' \<and>
           (secret_abort st' \<longleftrightarrow> write_progress cfg env addr len < unat len) \<and>
           (write_progress cfg env addr len = unat len \<longrightarrow>
              (first_abort cfg env' = Some 0 \<longleftrightarrow> write_aborted cfg env addr len))"
  using busy nab fit
proof (induction "unat len" arbitrary: st env addr src len rule: less_induct)
  case less
  show ?case
  proof (cases "len = 0")
    case True
    have wp: "write_progress cfg env addr len = 0"
      using True by (simp add: write_progress_def split: option.splits)
    have wa: "write_aborted cfg env addr len = (first_abort cfg env = Some 0)"
      using True by (auto simp add: write_aborted_def split: option.splits)
    have "write_loop cfg req st env addr src len = Some (Inr (True, st, env))"
      using True by (subst write_loop.simps) simp
    then show ?thesis using True less.prems wp wa by simp
  next
    case False
    then have Lpos: "0 < unat len" by (simp add: unat_gt_0)
    from less.prems(1) show ?thesis
    proof (cases rule: poll_cases [where env = env and cfg = cfg])
      case (esc b bs)
      have wp: "write_progress cfg env addr len = 0"
        using esc(4) by (simp add: write_progress_def chunk_end_def)
      have "write_loop cfg req st env addr src len =
              Some (Inr (False, st\<lparr>secret_abort := True\<rparr>, bs))"
        using False esc(3) by (subst write_loop.simps) (simp add: word_greater_zero_iff)
      then show ?thesis using less.prems Lpos wp by simp
    next
      case (go env1)
      have "src + min (2 ^ k - unat addr mod 2 ^ k) (unat len) \<le> length req"
        using less.prems(3) by simp
      from write_loop_step [OF S P mk k False go(1) less.prems(2) this]
      obtain buf chunk where
        uc: "unat chunk = min (2 ^ k - unat addr mod 2 ^ k) (unat len)"
        and cl: "chunk \<le> len"
        and eq: "write_loop cfg req st env addr src len =
           write_loop cfg req
             (st\<lparr>secret_sector_buf := buf,
                  flash := (\<lambda>a. if unat (a - addr) < unat chunk then req ! (src + unat (a - addr))
                                 else flash st a)\<rparr>)
             env1 (addr + chunk) (src + unat chunk) (len - chunk)"
        by blast
      let ?st4 = "st\<lparr>secret_sector_buf := buf,
                  flash := (\<lambda>a. if unat (a - addr) < unat chunk then req ! (src + unat (a - addr))
                                 else flash st a)\<rparr>"
      define c' where "c' = write_progress cfg env1 (addr + chunk) (len - chunk)"
      have ul: "unat (len - chunk) = unat len - unat chunk" using cl by (simp add: unat_sub)
      have "unat addr mod 2 ^ k < 2 ^ k" by simp
      then have cpos: "0 < unat chunk" using uc Lpos by simp
      have cle: "unat chunk \<le> unat len" using uc by simp
      have dec: "unat (len - chunk) < unat len" using ul cpos Lpos by simp
      have ps: "write_progress cfg env addr len = unat chunk + c'"
        and as: "write_aborted cfg env addr len = write_aborted cfg env1 (addr + chunk) (len - chunk)"
        using progress_step [OF S k uc go(2) False] by (simp_all add: c'_def)
      have c'le: "c' \<le> unat (len - chunk)"
        by (simp add: c'_def write_progress_def split: option.splits)
      from less.hyps [OF dec, of ?st4 "src + unat chunk" env1 "addr + chunk"] less.prems ul cle
      obtain st' env' where
        run: "write_loop cfg req ?st4 env1 (addr + chunk) (src + unat chunk) (len - chunk) =
                Some (Inr (c' = unat (len - chunk), st', env'))"
        and fl: "flash st' = (\<lambda>a. if unat (a - (addr + chunk)) < c'
                                   then req ! (src + unat chunk + unat (a - (addr + chunk)))
                                   else flash ?st4 a)"
        and b': "secret_busy st'"
        and a': "secret_abort st' \<longleftrightarrow> c' < unat (len - chunk)"
        and p': "c' = unat (len - chunk) \<longrightarrow>
                  (first_abort cfg env' = Some 0 \<longleftrightarrow>
                     write_aborted cfg env1 (addr + chunk) (len - chunk))"
        unfolding c'_def by auto
      have "unat len < 2 ^ 32" using unsigned_less [of len] by simp
      then have bound: "unat chunk + c' \<le> 2 ^ 32" using c'le ul cle by linarith
      have fl2: "flash st' = (\<lambda>a. if unat (a - addr) < unat chunk + c'
                                   then req ! (src + unat (a - addr)) else flash st a)"
      proof -
        have "(if unat (a - (addr + chunk)) < c'
               then req ! (src + unat chunk + unat (a - (addr + chunk)))
               else flash ?st4 a) =
              (if unat (a - addr) < unat chunk + c'
               then req ! (src + unat (a - addr)) else flash st a)" for a
        proof -
          define y where "y = unat (a - addr)"
          have sub: "a - (addr + chunk) = (a - addr) - chunk" by simp
          have rs: "(unat (a - (addr + chunk)) < c') = (unat chunk \<le> y \<and> y < unat chunk + c')"
            unfolding sub y_def by (rule range_split) (rule bound)
          have uy: "unat (a - (addr + chunk)) = y - unat chunk" if "unat chunk \<le> y"
          proof -
            have "chunk \<le> a - addr" unfolding word_le_nat_alt using that by (simp only: y_def)
            then have "unat ((a - addr) - chunk) = unat (a - addr) - unat chunk" by (rule unat_sub)
            then show ?thesis unfolding sub y_def .
          qed
          have f4: "flash ?st4 a = (if y < unat chunk then req ! (src + y) else flash st a)"
            by (simp add: y_def)
          show ?thesis unfolding rs f4 unfolding y_def [symmetric] using uy by auto
        qed
        then show ?thesis unfolding fl by (simp add: fun_eq_iff)
      qed
      have "write_loop cfg req st env addr src len =
              Some (Inr (write_progress cfg env addr len = unat len, st', env'))"
        unfolding eq run ps using ul cle by auto
      moreover have "secret_abort st' \<longleftrightarrow> write_progress cfg env addr len < unat len"
        unfolding ps a' using ul cle by auto
      moreover have "write_progress cfg env addr len = unat len \<longrightarrow>
              (first_abort cfg env' = Some 0 \<longleftrightarrow> write_aborted cfg env addr len)"
        unfolding ps as using p' ul cle by auto
      ultimately show ?thesis using fl2 b' unfolding ps by blast
    qed
  qed
qed

lemma write_loop_overread:
  fixes addr len :: u32
  assumes S: "FLASH_SECTOR_SIZE cfg = 2 ^ k" and k: "k < 32"
    and pos: "len \<noteq> 0"
    and pl: "poll cfg st env = (st1, env1)" and na: "\<not> secret_abort st1"
    and unfit: "length req < src + min (2 ^ k - unat addr mod 2 ^ k) (unat len)"
  shows "write_loop cfg req st env addr src len =
           Some (Inl (ReqOverread (src + min (2 ^ k - unat addr mod 2 ^ k) (unat len) - 1)))"
proof -
  define off where "off = unat addr mod 2 ^ k"
  define ss where "ss = addr AND NOT (FLASH_SECTOR_SIZE cfg - 1)"
  define chunk0 where "chunk0 = FLASH_SECTOR_SIZE cfg - (addr - ss)"
  define chunk where "chunk = (if chunk0 > len then len else chunk0)"
  have uS: "unat (FLASH_SECTOR_SIZE cfg) = 2 ^ k" using S k by (simp add: unat_2p)
  have uso: "unat (addr - ss) = off" unfolding ss_def S off_def by (rule unat_sector_offset)
  have offlt: "off < 2 ^ k" by (simp add: off_def)
  have "addr - ss \<le> FLASH_SECTOR_SIZE cfg"
    unfolding word_le_nat_alt uso uS using offlt by simp
  then have "unat chunk0 = unat (FLASH_SECTOR_SIZE cfg) - unat (addr - ss)"
    unfolding chunk0_def by (rule unat_sub)
  then have uc0: "unat chunk0 = 2 ^ k - off" by (simp only: uS uso)
  have uc: "unat chunk = min (2 ^ k - off) (unat len)"
    using uc0 by (auto simp add: chunk_def word_less_nat_alt)
  have ft: "fetch req src (unat chunk) = None"
    using unfit uc by (simp add: fetch_def off_def)
  have eq1: "write_loop cfg req st env addr src len =
       (case fetch req src (unat chunk) of
          None \<Rightarrow> Some (Inl (ReqOverread (src + unat chunk - 1)))
        | Some bytes \<Rightarrow>
            Option.bind
              (program_loop cfg
                 (flash_range_erase
                    (st1\<lparr>secret_sector_buf := memcpy_into
                        (xip_read cfg st1 (XIP_BASE cfg + ss) (unat (FLASH_SECTOR_SIZE cfg)))
                        (unat (addr - ss)) bytes\<rparr>)
                    ss (FLASH_SECTOR_SIZE cfg))
                 ss 0)
              (\<lambda>st4. write_loop cfg req st4 env1 (addr + chunk) (src + unat chunk) (len - chunk)))"
    unfolding chunk_def chunk0_def ss_def
    apply (subst write_loop.simps)
    using pos pl na
    apply (simp add: Let_def word_greater_zero_iff cong: option.case_cong)
    done
  show ?thesis unfolding eq1 ft using uc by (simp add: off_def)
qed

lemma write_loop_total:
  fixes addr len :: u32
  assumes S: "FLASH_SECTOR_SIZE cfg = 2 ^ k" and P: "FLASH_PAGE_SIZE cfg = 2 ^ m"
    and mk: "m \<le> k" and k: "k < 32"
    and busy: "secret_busy st"
  shows "(\<exists>ok st' env'. write_loop cfg req st env addr src len = Some (Inr (ok, st', env')) \<and>
            secret_busy st') \<or>
         (\<exists>i. write_loop cfg req st env addr src len = Some (Inl (ReqOverread i)) \<and>
            length req \<le> i \<and> i < src + unat len)"
  using busy
proof (induction "unat len" arbitrary: st env addr src len rule: less_induct)
  case less
  show ?case
  proof (cases "len = 0")
    case True
    have "write_loop cfg req st env addr src len = Some (Inr (True, st, env))"
      using True by (subst write_loop.simps) simp
    then show ?thesis using less.prems by blast
  next
    case False
    then have Lpos: "0 < unat len" by (simp add: unat_gt_0)
    from less.prems(1) show ?thesis
    proof (cases rule: poll_cases [where env = env and cfg = cfg])
      case (esc b bs)
      have "write_loop cfg req st env addr src len =
              Some (Inr (False, st\<lparr>secret_abort := True\<rparr>, bs))"
        using False esc(3) by (subst write_loop.simps) (simp add: word_greater_zero_iff)
      moreover have "secret_busy (st\<lparr>secret_abort := True\<rparr>)" using less.prems by simp
      ultimately show ?thesis by blast
    next
      case (go env1)
      define ch where "ch = min (2 ^ k - unat addr mod 2 ^ k) (unat len)"
      have "unat addr mod 2 ^ k < 2 ^ k" by simp
      then have chpos: "0 < ch" using Lpos by (simp add: ch_def)
      have chle: "ch \<le> unat len" by (simp add: ch_def)
      show ?thesis
      proof (cases "secret_abort st")
        case True
        have "write_loop cfg req st env addr src len = Some (Inr (False, st, env1))"
          using False go(1) True by (subst write_loop.simps) (simp add: word_greater_zero_iff)
        then show ?thesis using less.prems by blast
      next
        case nab: False
        show ?thesis
        proof (cases "src + ch \<le> length req")
          case False
          then have "length req < src + min (2 ^ k - unat addr mod 2 ^ k) (unat len)"
            by (simp add: ch_def)
          from write_loop_overread [OF S k \<open>len \<noteq> 0\<close> go(1) nab this]
          have "write_loop cfg req st env addr src len = Some (Inl (ReqOverread (src + ch - 1)))"
            by (simp add: ch_def)
          moreover have "length req \<le> src + ch - 1" using False by simp
          moreover have "src + ch - 1 < src + unat len" using chpos chle by simp
          ultimately show ?thesis by blast
        next
          case True
          then have "src + min (2 ^ k - unat addr mod 2 ^ k) (unat len) \<le> length req"
            by (simp add: ch_def)
          from write_loop_step [OF S P mk k \<open>len \<noteq> 0\<close> go(1) nab this]
          obtain buf chunk where
            uc: "unat chunk = ch"
            and cl: "chunk \<le> len"
            and eq: "write_loop cfg req st env addr src len =
               write_loop cfg req
                 (st\<lparr>secret_sector_buf := buf,
                      flash := (\<lambda>a. if unat (a - addr) < unat chunk then req ! (src + unat (a - addr))
                                     else flash st a)\<rparr>)
                 env1 (addr + chunk) (src + unat chunk) (len - chunk)"
            unfolding ch_def by blast
          have ul: "unat (len - chunk) = unat len - ch" using cl uc by (simp add: unat_sub)
          have dec: "unat (len - chunk) < unat len" using ul chpos Lpos by simp
          have sum: "src + unat chunk + unat (len - chunk) = src + unat len"
            using ul uc chle by simp
          let ?st4 = "st\<lparr>secret_sector_buf := buf,
                      flash := (\<lambda>a. if unat (a - addr) < unat chunk then req ! (src + unat (a - addr))
                                     else flash st a)\<rparr>"
          have b4: "secret_busy ?st4" using less.prems by simp
          from less.hyps [OF dec b4, of env1 "addr + chunk" "src + unat chunk"]
          show ?thesis unfolding eq sum .
        qed
      qed
    qed
  qed
qed

subsection \<open>The erase loop\<close>

lemma erase_loop_run:
  fixes addr end_addr :: u32
  assumes S: "FLASH_SECTOR_SIZE cfg = 2 ^ k" and k: "k < 32"
    and busy: "secret_busy st" and nab: "\<not> secret_abort st"
    and span: "unat addr + n * 2 ^ k = unat end_addr"
  shows "\<exists>st' env'.
           erase_loop cfg st env addr end_addr =
             Some (erase_progress cfg env n = n, st', env') \<and>
           flash st' = (\<lambda>a. if unat (a - addr) < erase_progress cfg env n * 2 ^ k
                              then - 1 else flash st a) \<and>
           secret_busy st' \<and>
           (secret_abort st' \<longleftrightarrow> erase_progress cfg env n < n) \<and>
           (erase_progress cfg env n = n \<longrightarrow>
              (first_abort cfg env' = Some 0 \<longleftrightarrow> erase_aborted cfg env n))"
  using busy nab span
proof (induction n arbitrary: st env addr)
  case 0
  then have "addr = end_addr" by (simp add: word_unat_eq_iff)
  then have "erase_loop cfg st env addr end_addr = Some (True, st, env)"
    by (subst erase_loop.simps) simp
  moreover have "erase_progress cfg env 0 = 0"
    by (simp add: erase_progress_def split: option.splits)
  moreover have "erase_aborted cfg env 0 = (first_abort cfg env = Some 0)"
    by (auto simp add: erase_aborted_def split: option.splits)
  ultimately show ?case using "0.prems" by simp
next
  case (Suc n)
  have uS: "unat (FLASH_SECTOR_SIZE cfg) = 2 ^ k" using S k by (simp add: unat_2p)
  have Kpos: "(0::nat) < 2 ^ k" by simp
  have e32: "unat end_addr < 2 ^ 32" using unsigned_less [of end_addr] by simp
  have "unat addr + 2 ^ k \<le> unat end_addr" using Suc.prems(3) by simp
  with Kpos have "unat addr < unat end_addr" by linarith
  then have lt: "addr < end_addr" by (simp add: word_less_nat_alt)
  from Suc.prems(1) show ?case
  proof (cases rule: poll_cases [where env = env and cfg = cfg])
    case (esc b bs)
    have ep: "erase_progress cfg env (Suc n) = 0"
      using esc(4) by (simp add: erase_progress_def)
    have "erase_loop cfg st env addr end_addr = Some (False, st\<lparr>secret_abort := True\<rparr>, bs)"
      using lt esc(3) by (subst erase_loop.simps) simp
    then show ?thesis using Suc.prems ep by simp
  next
    case (go env1)
    let ?st1 = "flash_range_erase st addr (FLASH_SECTOR_SIZE cfg)"
    let ?addr' = "addr + FLASH_SECTOR_SIZE cfg"
    define c' where "c' = erase_progress cfg env1 n"
    have ua': "unat ?addr' = unat addr + 2 ^ k"
      using Suc.prems(3) e32 uS by (simp add: unat_word_ariths)
    have span': "unat ?addr' + n * 2 ^ k = unat end_addr"
      using ua' Suc.prems(3) by simp
    have eq: "erase_loop cfg st env addr end_addr = erase_loop cfg ?st1 env1 ?addr' end_addr"
      using lt go(1) Suc.prems(2) by (subst erase_loop.simps) simp
    have ps: "erase_progress cfg env (Suc n) = Suc c'"
      using go(2) by (simp add: erase_progress_def c'_def split: option.splits)
    have as: "erase_aborted cfg env (Suc n) = erase_aborted cfg env1 n"
      using go(2) by (simp add: erase_aborted_def split: option.splits)
    have c'le: "c' \<le> n" by (simp add: c'_def erase_progress_def split: option.splits)
    have b1: "secret_busy ?st1" and n1: "\<not> secret_abort ?st1"
      using Suc.prems by (simp_all add: flash_range_erase_def)
    from Suc.IH [OF b1 n1 span', of env1]
    obtain st' env' where
      run: "erase_loop cfg ?st1 env1 ?addr' end_addr = Some (c' = n, st', env')"
      and fl: "flash st' = (\<lambda>a. if unat (a - ?addr') < c' * 2 ^ k then - 1 else flash ?st1 a)"
      and b': "secret_busy st'"
      and a': "secret_abort st' \<longleftrightarrow> c' < n"
      and p': "c' = n \<longrightarrow> (first_abort cfg env' = Some 0 \<longleftrightarrow> erase_aborted cfg env1 n)"
      unfolding c'_def by auto
    have "c' * 2 ^ k \<le> n * (2::nat) ^ k" using c'le by simp
    then have bound: "2 ^ k + c' * 2 ^ k \<le> (2::nat) ^ 32" using span' ua' e32 by linarith
    have fl2: "flash st' = (\<lambda>a. if unat (a - addr) < Suc c' * 2 ^ k then - 1 else flash st a)"
    proof -
      have "(if unat (a - ?addr') < c' * 2 ^ k then - 1 else flash ?st1 a) =
            (if unat (a - addr) < Suc c' * 2 ^ k then - 1 else flash st a)" for a
      proof -
        define y where "y = unat (a - addr)"
        have sub: "a - ?addr' = (a - addr) - FLASH_SECTOR_SIZE cfg" by simp
        have rs: "(unat (a - ?addr') < c' * 2 ^ k) = (2 ^ k \<le> y \<and> y < 2 ^ k + c' * 2 ^ k)"
          unfolding sub y_def uS [symmetric]
          by (rule range_split) (use bound uS in simp)
        have f1: "flash ?st1 a = (if y < 2 ^ k then - 1 else flash st a)"
          by (simp add: flash_range_erase_def word_less_nat_alt uS y_def)
        show ?thesis unfolding rs f1 unfolding y_def [symmetric] by auto
      qed
      then show ?thesis unfolding fl by (simp add: fun_eq_iff)
    qed
    have "erase_loop cfg st env addr end_addr =
            Some (erase_progress cfg env (Suc n) = Suc n, st', env')"
      unfolding eq run ps by simp
    moreover have "secret_abort st' \<longleftrightarrow> erase_progress cfg env (Suc n) < Suc n"
      unfolding ps a' by simp
    moreover have "erase_progress cfg env (Suc n) = Suc n \<longrightarrow>
            (first_abort cfg env' = Some 0 \<longleftrightarrow> erase_aborted cfg env (Suc n))"
      unfolding ps as using p' by simp
    ultimately show ?thesis using fl2 b' unfolding ps by blast
  qed
qed

subsection \<open>Progress\<close>

lemma unat_ucast_u8: "unat (ucast (x :: u8) :: u32) = unat x"
proof -
  have "unat x < 2 ^ 8" using unsigned_less [of x] by simp
  then have "unat x < 2 ^ 32" by simp
  then show ?thesis by (simp add: unsigned_ucast_eq take_bit_nat_eq_self)
qed

lemma chunk_end_mono: "chunk_end cfg addr (j - 1) \<le> chunk_end cfg addr j"
  by (cases j) (auto simp add: chunk_end_def)

lemma write_progress_aborted:
  assumes "write_progress cfg env addr len < unat len"
  shows "write_aborted cfg env addr len"
proof (cases "first_abort cfg env")
  case None
  then show ?thesis using assms by (simp add: write_progress_def)
next
  case (Some j)
  then have "chunk_end cfg addr j < unat len" using assms by (simp add: write_progress_def)
  with chunk_end_mono [of cfg addr j] have "chunk_end cfg addr (j - 1) < unat len" by linarith
  then show ?thesis using Some by (simp add: write_aborted_def)
qed

lemma erase_progress_aborted:
  "erase_progress cfg env n < n \<Longrightarrow> erase_aborted cfg env n"
  by (auto simp add: erase_progress_def erase_aborted_def split: option.splits)

lemma secret_erase_range_run:
  fixes off len :: u32 and cfg :: config
  defines "n \<equiv> unat len div unat (FLASH_SECTOR_SIZE cfg)"
  assumes S: "FLASH_SECTOR_SIZE cfg = 2 ^ k" and k: "k < 32"
    and busy: "secret_busy st" and nab: "\<not> secret_abort st"
    and al: "off mod FLASH_SECTOR_SIZE cfg = 0" "len mod FLASH_SECTOR_SIZE cfg = 0"
    and nowrap: "unat (secret_flash_offset cfg off) + unat len < 2 ^ 32"
  shows "\<exists>st' env'.
           secret_erase_range cfg st env off len =
             Some (erase_progress cfg env n = n, st', env') \<and>
           flash st' = (\<lambda>a. if unat (a - secret_flash_offset cfg off)
                                  < erase_progress cfg env n * unat (FLASH_SECTOR_SIZE cfg)
                              then - 1 else flash st a) \<and>
           secret_busy st' \<and>
           (secret_abort st' \<longleftrightarrow> erase_progress cfg env n < n) \<and>
           (erase_progress cfg env n = n \<longrightarrow>
              (first_abort cfg env' = Some 0 \<longleftrightarrow> erase_aborted cfg env n))"
proof -
  have uS: "unat (FLASH_SECTOR_SIZE cfg) = 2 ^ k" using S k by (simp add: unat_2p)
  have "2 ^ k dvd unat len" using al(2) k unfolding S by (simp add: unat_mod_2p)
  then have ln: "unat len = n * 2 ^ k" by (simp add: n_def uS)
  have span: "unat (secret_flash_offset cfg off) + n * 2 ^ k
                = unat (secret_flash_offset cfg off + len)"
    using nowrap ln by (simp add: unat_word_ariths)
  have eq: "secret_erase_range cfg st env off len =
          erase_loop cfg st env (secret_flash_offset cfg off) (secret_flash_offset cfg off + len)"
    using al by (simp add: secret_erase_range_def Let_def)
  show ?thesis
    unfolding eq uS
    by (rule erase_loop_run [OF S k busy nab span])
qed



section \<open>Requests\<close>

lemma read_request:
  assumes "length data = 32" and "classify data = Some (base, SECRET_CMD_READ)"
    and "\<not> secret_busy st"
  shows "raw_hid_receive_kb cfg env st data =
     (if data ! (base + 5) = 0 \<or> data ! (base + 5) > SECRET_MAX_READ then
        Returns st ((data ! 0 # replicate 31 0)[base + 1 := SECRET_STATUS_ERR])
      else if read_u32_be data (base + 1) + ucast (data ! (base + 5)) > SECRET_STORAGE_SIZE cfg then
        Returns st ((data ! 0 # replicate 31 0)[base + 1 := SECRET_STATUS_RANGE])
      else if secret_abort (finish cfg (st\<lparr>secret_busy := True, secret_abort := False\<rparr>) env) then
        Returns (finish cfg (st\<lparr>secret_busy := True, secret_abort := False\<rparr>) env)
          ((secret_read_bytes cfg (st\<lparr>secret_busy := True, secret_abort := False\<rparr>)
              (read_u32_be data (base + 1)) (data ! 0 # replicate 31 0) (base + 3)
              (unat (data ! (base + 5))))
           [base + 1 := SECRET_STATUS_ABORT])
      else
        Returns (finish cfg (st\<lparr>secret_busy := True, secret_abort := False\<rparr>) env)
          ((secret_read_bytes cfg (st\<lparr>secret_busy := True, secret_abort := False\<rparr>)
              (read_u32_be data (base + 1)) (data ! 0 # replicate 31 0) (base + 3)
              (unat (data ! (base + 5))))
           [base + 1 := SECRET_STATUS_OK, base + 2 := data ! (base + 5)]))"
  using assms
  by (simp add: raw_hid_receive_kb_def dispatch_def clear_response_eq cmd_defs Let_def
        split: option.split sum.split prod.split)

lemma write_request:
  assumes "length data = 32" and "classify data = Some (base, SECRET_CMD_WRITE)"
    and "\<not> secret_busy st"
  shows "raw_hid_receive_kb cfg env st data =
     (if data ! (base + 5) = 0 \<or> data ! (base + 5) > SECRET_MAX_WRITE then
        Returns st ((data ! 0 # replicate 31 0)[base + 1 := SECRET_STATUS_ERR])
      else if read_u32_be data (base + 1) + ucast (data ! (base + 5)) > SECRET_STORAGE_SIZE cfg then
        Returns st ((data ! 0 # replicate 31 0)[base + 1 := SECRET_STATUS_RANGE])
      else
        (case secret_write_bytes cfg data (st\<lparr>secret_busy := True, secret_abort := False\<rparr>) env
                (read_u32_be data (base + 1)) (base + 6) (ucast (data ! (base + 5))) of
           None \<Rightarrow> Diverges
         | Some (Inl f) \<Rightarrow> Faults f
         | Some (Inr (ok, st2, env2)) \<Rightarrow>
             if secret_abort (finish cfg st2 env2)
             then Returns (finish cfg st2 env2)
                    ((data ! 0 # replicate 31 0)[base + 1 := SECRET_STATUS_ABORT])
             else Returns (finish cfg st2 env2)
                    ((data ! 0 # replicate 31 0)
                     [base + 1 := (if ok then SECRET_STATUS_OK else SECRET_STATUS_ERR)])))"
  using assms
  by (simp add: raw_hid_receive_kb_def dispatch_def clear_response_eq cmd_defs Let_def
        split: option.split sum.split prod.split)

lemma erase_request:
  assumes "length data = 32" and "classify data = Some (base, SECRET_CMD_ERASE)"
    and "\<not> secret_busy st"
  shows "raw_hid_receive_kb cfg env st data =
     (if read_u32_be data (base + 5) = 0 then
        Returns st ((data ! 0 # replicate 31 0)[base + 1 := SECRET_STATUS_ERR])
      else if read_u32_be data (base + 1) + read_u32_be data (base + 5) > SECRET_STORAGE_SIZE cfg then
        Returns st ((data ! 0 # replicate 31 0)[base + 1 := SECRET_STATUS_RANGE])
      else if read_u32_be data (base + 1) mod FLASH_SECTOR_SIZE cfg \<noteq> 0
              \<or> read_u32_be data (base + 5) mod FLASH_SECTOR_SIZE cfg \<noteq> 0 then
        Returns st ((data ! 0 # replicate 31 0)[base + 1 := SECRET_STATUS_ALIGN])
      else
        (case secret_erase_range cfg (st\<lparr>secret_busy := True, secret_abort := False\<rparr>) env
                (read_u32_be data (base + 1)) (read_u32_be data (base + 5)) of
           None \<Rightarrow> Diverges
         | Some (ok, st2, env2) \<Rightarrow>
             if secret_abort (finish cfg st2 env2)
             then Returns (finish cfg st2 env2)
                    ((data ! 0 # replicate 31 0)[base + 1 := SECRET_STATUS_ABORT])
             else Returns (finish cfg st2 env2)
                    ((data ! 0 # replicate 31 0)
                     [base + 1 := (if ok then SECRET_STATUS_OK else SECRET_STATUS_ERR)])))"
  using assms
  by (simp add: raw_hid_receive_kb_def dispatch_def clear_response_eq cmd_defs Let_def
        split: option.split sum.split prod.split)

lemma write_run:
  fixes cfg env st data base
  defines "addr \<equiv> secret_flash_offset cfg (read_u32_be data (base + 1))"
    and "len \<equiv> ucast (data ! (base + 5)) :: u32"
  assumes geo: "flash_geometry cfg" and len32: "length data = 32"
    and cl: "classify data = Some (base, SECRET_CMD_WRITE)" and nb: "\<not> secret_busy st"
    and sz: "data ! (base + 5) \<noteq> 0" "data ! (base + 5) \<le> SECRET_MAX_WRITE"
    and rng: "\<not> read_u32_be data (base + 1) + ucast (data ! (base + 5)) > SECRET_STORAGE_SIZE cfg"
    and fit: "base + 6 + unat (data ! (base + 5)) \<le> 32"
  shows "\<exists>st'. raw_hid_receive_kb cfg env st data =
           Returns st' ((data ! 0 # replicate 31 0)
             [base + 1 := (if write_aborted cfg env addr len then SECRET_STATUS_ABORT
                           else SECRET_STATUS_OK)]) \<and>
         flash st' = (\<lambda>a. if unat (a - addr) < write_progress cfg env addr len
                            then data ! (base + 6 + unat (a - addr)) else flash st a) \<and>
         \<not> secret_busy st' \<and>
         secret_abort st' = write_aborted cfg env addr len"
proof -
  from geo obtain k m where k: "k < 32" and mk: "m \<le> k"
    and S: "FLASH_SECTOR_SIZE cfg = 2 ^ k" and P: "FLASH_PAGE_SIZE cfg = 2 ^ m"
    by (rule geometryE)
  let ?st1 = "st\<lparr>secret_busy := True, secret_abort := False\<rparr>"
  have ul: "unat len = unat (data ! (base + 5))" by (simp add: len_def unat_ucast_u8)
  have fit': "base + 6 + unat len \<le> length data" using fit ul len32 by simp
  from write_loop_run [OF S P mk k _ _ fit', of ?st1 env addr]
  obtain st2 env2 where
    run: "write_loop cfg data ?st1 env addr (base + 6) len =
            Some (Inr (write_progress cfg env addr len = unat len, st2, env2))"
    and fl: "flash st2 = (\<lambda>a. if unat (a - addr) < write_progress cfg env addr len
                              then data ! (base + 6 + unat (a - addr)) else flash ?st1 a)"
    and b2: "secret_busy st2"
    and a2: "secret_abort st2 \<longleftrightarrow> write_progress cfg env addr len < unat len"
    and p2: "write_progress cfg env addr len = unat len \<longrightarrow>
              (first_abort cfg env2 = Some 0 \<longleftrightarrow> write_aborted cfg env addr len)"
    by auto
  have wple: "write_progress cfg env addr len \<le> unat len"
    by (simp add: write_progress_def split: option.splits)
  have ab: "secret_abort (finish cfg st2 env2) = write_aborted cfg env addr len"
    using a2 p2 wple write_progress_aborted [of cfg env addr len]
    by (auto simp add: finish_busy [OF b2])
  have ok: "\<not> write_aborted cfg env addr len \<Longrightarrow> write_progress cfg env addr len = unat len"
    using wple write_progress_aborted [of cfg env addr len] by fastforce
  have szv: "\<not> (data ! (base + 5) = 0 \<or> data ! (base + 5) > SECRET_MAX_WRITE)"
    using sz by (simp add: not_less)
  have "raw_hid_receive_kb cfg env st data =
          Returns (finish cfg st2 env2) ((data ! 0 # replicate 31 0)
             [base + 1 := (if write_aborted cfg env addr len then SECRET_STATUS_ABORT
                           else SECRET_STATUS_OK)])"
    unfolding write_request [OF len32 cl nb] secret_write_bytes_def
    unfolding addr_def [symmetric] len_def [symmetric] run
    using szv rng ab ok
    by (simp add: len_def)
  moreover have "flash (finish cfg st2 env2) =
        (\<lambda>a. if unat (a - addr) < write_progress cfg env addr len
              then data ! (base + 6 + unat (a - addr)) else flash st a)"
    using fl by (simp add: finish_busy [OF b2] cong: if_cong)
  moreover have "\<not> secret_busy (finish cfg st2 env2)" by (simp add: finish_busy [OF b2])
  ultimately show ?thesis using ab by blast
qed

lemma erase_run:
  fixes cfg env st data base
  defines "off \<equiv> read_u32_be data (base + 1)"
    and "len \<equiv> read_u32_be data (base + 5)"
  defines "n \<equiv> unat len div unat (FLASH_SECTOR_SIZE cfg)"
  assumes geo: "flash_geometry cfg" and len32: "length data = 32"
    and cl: "classify data = Some (base, SECRET_CMD_ERASE)" and nb: "\<not> secret_busy st"
    and nz: "len \<noteq> 0"
    and rng: "\<not> off + len > SECRET_STORAGE_SIZE cfg"
    and al: "off mod FLASH_SECTOR_SIZE cfg = 0" "len mod FLASH_SECTOR_SIZE cfg = 0"
    and nowrap: "unat (secret_flash_offset cfg off) + unat len < 2 ^ 32"
  shows "\<exists>st'. raw_hid_receive_kb cfg env st data =
           Returns st' ((data ! 0 # replicate 31 0)
             [base + 1 := (if erase_aborted cfg env n then SECRET_STATUS_ABORT
                           else SECRET_STATUS_OK)]) \<and>
         flash st' = (\<lambda>a. if unat (a - secret_flash_offset cfg off)
                                < erase_progress cfg env n * unat (FLASH_SECTOR_SIZE cfg)
                            then - 1 else flash st a) \<and>
         \<not> secret_busy st' \<and>
         secret_abort st' = erase_aborted cfg env n"
proof -
  from geo obtain k m where k: "k < 32"
    and S: "FLASH_SECTOR_SIZE cfg = 2 ^ k" by (rule geometryE)
  let ?st1 = "st\<lparr>secret_busy := True, secret_abort := False\<rparr>"
  from secret_erase_range_run [OF S k _ _ al nowrap, of ?st1 env]
  obtain st2 env2 where
    run: "secret_erase_range cfg ?st1 env off len =
            Some (erase_progress cfg env n = n, st2, env2)"
    and fl: "flash st2 = (\<lambda>a. if unat (a - secret_flash_offset cfg off)
                                  < erase_progress cfg env n * unat (FLASH_SECTOR_SIZE cfg)
                              then - 1 else flash ?st1 a)"
    and b2: "secret_busy st2"
    and a2: "secret_abort st2 \<longleftrightarrow> erase_progress cfg env n < n"
    and p2: "erase_progress cfg env n = n \<longrightarrow>
              (first_abort cfg env2 = Some 0 \<longleftrightarrow> erase_aborted cfg env n)"
    unfolding n_def by auto
  have ple: "erase_progress cfg env n \<le> n"
    by (simp add: erase_progress_def split: option.splits)
  have ab: "secret_abort (finish cfg st2 env2) = erase_aborted cfg env n"
    using a2 p2 ple erase_progress_aborted [of cfg env n]
    by (auto simp add: finish_busy [OF b2])
  have ok: "\<not> erase_aborted cfg env n \<Longrightarrow> erase_progress cfg env n = n"
    using ple erase_progress_aborted [of cfg env n] by fastforce
  have "raw_hid_receive_kb cfg env st data =
          Returns (finish cfg st2 env2) ((data ! 0 # replicate 31 0)
             [base + 1 := (if erase_aborted cfg env n then SECRET_STATUS_ABORT
                           else SECRET_STATUS_OK)])"
    unfolding erase_request [OF len32 cl nb]
    unfolding off_def [symmetric] len_def [symmetric] run
    using nz rng al ab ok
    by simp
  moreover have "flash (finish cfg st2 env2) =
        (\<lambda>a. if unat (a - secret_flash_offset cfg off)
                  < erase_progress cfg env n * unat (FLASH_SECTOR_SIZE cfg)
              then - 1 else flash st a)"
    using fl by (simp add: finish_busy [OF b2] cong: if_cong)
  moreover have "\<not> secret_busy (finish cfg st2 env2)" by (simp add: finish_busy [OF b2])
  ultimately show ?thesis using ab by blast
qed

lemma length_secret_read_bytes:
  "di + n \<le> length dst \<Longrightarrow> length (secret_read_bytes cfg st off dst di n) = length dst"
  by (simp add: secret_read_bytes_def xip_read_def length_memcpy_into)

lemma read_run:
  fixes cfg env st data base
  defines "off \<equiv> read_u32_be data (base + 1)"
    and "sz \<equiv> data ! (base + 5)"
  assumes len32: "length data = 32"
    and cl: "classify data = Some (base, SECRET_CMD_READ)" and nb: "\<not> secret_busy st"
    and szv: "sz \<noteq> 0" "sz \<le> SECRET_MAX_READ"
    and rng: "\<not> off + ucast sz > SECRET_STORAGE_SIZE cfg"
  shows "\<exists>d. raw_hid_receive_kb cfg env st data =
           Returns (st\<lparr>secret_abort := (first_abort cfg env = Some 0)\<rparr>) d \<and>
         length d = 32 \<and>
         d ! (base + 1) = (if first_abort cfg env = Some 0 then SECRET_STATUS_ABORT
                           else SECRET_STATUS_OK) \<and>
         (first_abort cfg env \<noteq> Some 0 \<longrightarrow> d ! (base + 2) = sz) \<and>
         (\<forall>i < unat sz. d ! (base + 3 + i) = flash st (secret_flash_offset cfg off + of_nat i))"
proof -
  from cl have b: "base = 0 \<or> base = 1" by (auto dest: classify_cases)
  let ?st1 = "st\<lparr>secret_busy := True, secret_abort := False\<rparr>"
  let ?X = "data ! 0 # replicate 31 (0::u8)"
  define d1 where "d1 = secret_read_bytes cfg ?st1 off ?X (base + 3) (unat sz)"
  have usz: "unat sz \<le> 28" using szv(2) by (simp add: SECRET_MAX_READ_def word_le_nat_alt)
  have fin: "finish cfg ?st1 env = st\<lparr>secret_abort := (first_abort cfg env = Some 0)\<rparr>"
    using nb by (simp add: finish_busy)
  have l1: "length d1 = 32"
    unfolding d1_def using usz b by (subst length_secret_read_bytes) auto
  have pay: "d1 ! (base + 3 + i) = flash st (secret_flash_offset cfg off + of_nat i)"
    if "i < unat sz" for i
    unfolding d1_def secret_read_bytes_def
    using that usz b
    by (subst nth_memcpy_into) (auto simp add: xip_read_def)
  have szv': "\<not> (sz = 0 \<or> sz > SECRET_MAX_READ)" using szv by (simp add: not_less)
  have "raw_hid_receive_kb cfg env st data =
          Returns (st\<lparr>secret_abort := (first_abort cfg env = Some 0)\<rparr>)
            (if first_abort cfg env = Some 0 then d1[base + 1 := SECRET_STATUS_ABORT]
             else d1[base + 1 := SECRET_STATUS_OK, base + 2 := sz])"
    unfolding read_request [OF len32 cl nb]
    unfolding off_def [symmetric] sz_def [symmetric] d1_def [symmetric] fin
    using szv' rng by simp
  moreover have "length (if first_abort cfg env = Some 0 then d1[base + 1 := SECRET_STATUS_ABORT]
             else d1[base + 1 := SECRET_STATUS_OK, base + 2 := sz]) = 32"
    using l1 by simp
  moreover have "(if first_abort cfg env = Some 0 then d1[base + 1 := SECRET_STATUS_ABORT]
             else d1[base + 1 := SECRET_STATUS_OK, base + 2 := sz]) ! (base + 1) =
           (if first_abort cfg env = Some 0 then SECRET_STATUS_ABORT else SECRET_STATUS_OK)"
    using l1 b by auto
  moreover have "first_abort cfg env \<noteq> Some 0 \<longrightarrow>
           (if first_abort cfg env = Some 0 then d1[base + 1 := SECRET_STATUS_ABORT]
             else d1[base + 1 := SECRET_STATUS_OK, base + 2 := sz]) ! (base + 2) = sz"
    using l1 b by auto
  moreover have "\<forall>i < unat sz.
           (if first_abort cfg env = Some 0 then d1[base + 1 := SECRET_STATUS_ABORT]
             else d1[base + 1 := SECRET_STATUS_OK, base + 2 := sz]) ! (base + 3 + i) =
           flash st (secret_flash_offset cfg off + of_nat i)"
    using pay by auto
  ultimately show ?thesis by blast
qed

lemma range_check_passes:
  fixes off :: u32 and sz :: u8
  assumes "unat off + unat sz \<le> unat (SECRET_STORAGE_SIZE cfg)"
  shows "\<not> off + ucast sz > SECRET_STORAGE_SIZE cfg"
proof -
  have "unat (SECRET_STORAGE_SIZE cfg) < 2 ^ 32"
    using unsigned_less [of "SECRET_STORAGE_SIZE cfg"] by simp
  then have "unat (off + ucast sz) = unat off + unat sz"
    using assms by (simp add: unat_word_ariths unat_ucast_u8)
  then show ?thesis using assms by (simp add: word_less_nat_alt)
qed

lemma range_check_without_wrap:
  fixes cfg env st data base
  defines "off \<equiv> read_u32_be data (base + 1)"
    and "sz \<equiv> data ! (base + 5)"
  assumes len32: "length data = 32" and nb: "\<not> secret_busy st"
    and nowrap: "unat off + unat sz < 2 ^ 32"
    and out: "unat off + unat sz > unat (SECRET_STORAGE_SIZE cfg)"
  shows "classify data = Some (base, SECRET_CMD_READ) \<Longrightarrow> sz \<noteq> 0 \<Longrightarrow> sz \<le> SECRET_MAX_READ \<Longrightarrow>
           raw_hid_receive_kb cfg env st data =
             Returns st ((data ! 0 # replicate 31 0)[base + 1 := SECRET_STATUS_RANGE])"
    and "classify data = Some (base, SECRET_CMD_WRITE) \<Longrightarrow> sz \<noteq> 0 \<Longrightarrow> sz \<le> SECRET_MAX_WRITE \<Longrightarrow>
           raw_hid_receive_kb cfg env st data =
             Returns st ((data ! 0 # replicate 31 0)[base + 1 := SECRET_STATUS_RANGE])"
proof -
  have "unat (off + ucast sz) = unat off + unat sz"
    using nowrap by (simp add: unat_word_ariths unat_ucast_u8)
  then have rng: "off + ucast sz > SECRET_STORAGE_SIZE cfg"
    using out by (simp add: word_less_nat_alt)
  show "raw_hid_receive_kb cfg env st data =
             Returns st ((data ! 0 # replicate 31 0)[base + 1 := SECRET_STATUS_RANGE])"
    if "classify data = Some (base, SECRET_CMD_READ)" "sz \<noteq> 0" "sz \<le> SECRET_MAX_READ"
    unfolding read_request [OF len32 that(1) nb]
    unfolding off_def [symmetric] sz_def [symmetric]
    using that(2,3) rng by (simp add: not_less [symmetric])
  show "raw_hid_receive_kb cfg env st data =
             Returns st ((data ! 0 # replicate 31 0)[base + 1 := SECRET_STATUS_RANGE])"
    if "classify data = Some (base, SECRET_CMD_WRITE)" "sz \<noteq> 0" "sz \<le> SECRET_MAX_WRITE"
    unfolding write_request [OF len32 that(1) nb]
    unfolding off_def [symmetric] sz_def [symmetric]
    using that(2,3) rng by (simp add: not_less [symmetric])
qed

lemma example_sector: "FLASH_SECTOR_SIZE example_cfg = 2 ^ 12"
  by (simp add: example_cfg_def)

lemma erase_validation_order:
  fixes cfg env st data base
  defines "off \<equiv> read_u32_be data (base + 1)"
    and "len \<equiv> read_u32_be data (base + 5)"
  assumes len32: "length data = 32"
    and cl: "classify data = Some (base, SECRET_CMD_ERASE)" and nb: "\<not> secret_busy st"
    and nowrap: "unat off + unat len < 2 ^ 32"
  shows "raw_hid_receive_kb cfg env st data =
     (if len = 0 then
        Returns st ((data ! 0 # replicate 31 0)[base + 1 := SECRET_STATUS_ERR])
      else if unat off + unat len > unat (SECRET_STORAGE_SIZE cfg) then
        Returns st ((data ! 0 # replicate 31 0)[base + 1 := SECRET_STATUS_RANGE])
      else if off mod FLASH_SECTOR_SIZE cfg \<noteq> 0 \<or> len mod FLASH_SECTOR_SIZE cfg \<noteq> 0 then
        Returns st ((data ! 0 # replicate 31 0)[base + 1 := SECRET_STATUS_ALIGN])
      else raw_hid_receive_kb cfg env st data)"
proof -
  have "unat (off + len) = unat off + unat len"
    using nowrap by (simp add: unat_word_ariths)
  then have "(off + len > SECRET_STORAGE_SIZE cfg) =
             (unat off + unat len > unat (SECRET_STORAGE_SIZE cfg))"
    by (simp add: word_less_nat_alt)
  then show ?thesis
    unfolding erase_request [OF len32 cl nb]
    unfolding off_def [symmetric] len_def [symmetric]
    by simp
qed

lemma write_total:
  assumes geo: "flash_geometry cfg" and len32: "length data = 32"
    and cl: "classify data = Some (base, SECRET_CMD_WRITE)" and nb: "\<not> secret_busy st"
  shows "(\<exists>st' d. raw_hid_receive_kb cfg env st data = Returns st' d \<and> \<not> secret_busy st') \<or>
         (raw_hid_receive_kb cfg env st data = Faults (ReqOverread 32) \<and>
          base = 1 \<and> data ! 6 = 26)"
proof -
  from geo obtain k m where k: "k < 32" and mk: "m \<le> k"
    and S: "FLASH_SECTOR_SIZE cfg = 2 ^ k" and P: "FLASH_PAGE_SIZE cfg = 2 ^ m"
    by (rule geometryE)
  from cl have b: "base = 0 \<or> base = 1" by (auto dest: classify_cases)
  define sz where "sz = data ! (base + 5)"
  define off where "off = read_u32_be data (base + 1)"
  let ?st1 = "st\<lparr>secret_busy := True, secret_abort := False\<rparr>"
  show ?thesis
  proof (cases "sz = 0 \<or> sz > SECRET_MAX_WRITE \<or> off + ucast sz > SECRET_STORAGE_SIZE cfg")
    case True
    then have "\<exists>d. raw_hid_receive_kb cfg env st data = Returns st d"
      unfolding write_request [OF len32 cl nb]
      unfolding off_def [symmetric] sz_def [symmetric]
      by auto
    then show ?thesis using nb by blast
  next
    case False
    then have usz: "unat sz \<le> 26"
      by (simp add: SECRET_MAX_WRITE_def word_le_nat_alt not_less)
    have b1: "secret_busy ?st1" by simp
    from write_loop_total [OF S P mk k b1, of data env "secret_flash_offset cfg off" "base + 6" "ucast sz"]
    consider (ret) ok st2 env2 where
        "write_loop cfg data ?st1 env (secret_flash_offset cfg off) (base + 6) (ucast sz)
           = Some (Inr (ok, st2, env2))" "secret_busy st2"
      | (flt) i where
        "write_loop cfg data ?st1 env (secret_flash_offset cfg off) (base + 6) (ucast sz)
           = Some (Inl (ReqOverread i))" "length data \<le> i" "i < base + 6 + unat (ucast sz :: u32)"
      by blast
    then show ?thesis
    proof cases
      case ret
      have "\<not> secret_busy (finish cfg st2 env2)" by (simp add: finish_busy [OF ret(2)])
      moreover have "\<exists>d. raw_hid_receive_kb cfg env st data = Returns (finish cfg st2 env2) d"
        unfolding write_request [OF len32 cl nb] secret_write_bytes_def
        unfolding off_def [symmetric] sz_def [symmetric] ret(1)
        using False by auto
      ultimately show ?thesis by blast
    next
      case flt
      have i: "32 \<le> i" "i < base + 6 + unat sz"
        using flt(2,3) len32 by (simp_all add: unat_ucast_u8)
      with usz b have "i = 32" "base = 1" "unat sz = 26" by auto
      moreover from \<open>unat sz = 26\<close> have "sz = 26"
        by (simp add: word_unat_eq_iff)
      moreover have "raw_hid_receive_kb cfg env st data = Faults (ReqOverread i)"
        unfolding write_request [OF len32 cl nb] secret_write_bytes_def
        unfolding off_def [symmetric] sz_def [symmetric] flt(1)
        using False by auto
      ultimately show ?thesis by (simp add: sz_def)
    qed
  qed
qed

lemma region_no_wrap:
  fixes off :: u32
  assumes sa: "static_asserts cfg"
    and inr: "unat off + n \<le> unat (SECRET_STORAGE_SIZE cfg)"
  shows "unat (secret_flash_offset cfg off) = unat (SECRET_STORAGE_BASE cfg) + unat off"
    and "unat (secret_flash_offset cfg off) + n < 2 ^ 32"
proof -
  let ?F = "PICO_FLASH_SIZE_BYTES cfg" and ?W = "WEAR_LEVELING_BACKING_SIZE cfg"
    and ?Z = "SECRET_STORAGE_SIZE cfg"
  from sa have le: "unat ?Z + unat ?W \<le> unat ?F" by (simp add: static_asserts_def)
  have F32: "unat ?F < 2 ^ 32" using unsigned_less [of ?F] by simp
  have "?W \<le> ?F" using le by (simp add: word_le_nat_alt)
  then have u1: "unat (?F - ?W) = unat ?F - unat ?W" by (rule unat_sub)
  have "?Z \<le> ?F - ?W" using le u1 by (simp add: word_le_nat_alt)
  then have "unat (?F - ?W - ?Z) = unat (?F - ?W) - unat ?Z" by (rule unat_sub)
  then have ub: "unat (SECRET_STORAGE_BASE cfg) = unat ?F - unat ?W - unat ?Z"
    using u1 by (simp add: SECRET_STORAGE_BASE_def)
  have sum: "unat (SECRET_STORAGE_BASE cfg) + unat off + n < 2 ^ 32"
    using ub le F32 inr by linarith
  then show a: "unat (secret_flash_offset cfg off) = unat (SECRET_STORAGE_BASE cfg) + unat off"
    by (simp add: secret_flash_offset_def unat_word_ariths)
  show "unat (secret_flash_offset cfg off) + n < 2 ^ 32" using a sum by simp
qed

lemma erase_range_check_passes:
  fixes off len :: u32
  assumes "unat off + unat len \<le> unat (SECRET_STORAGE_SIZE cfg)"
  shows "\<not> off + len > SECRET_STORAGE_SIZE cfg"
proof -
  have "unat (SECRET_STORAGE_SIZE cfg) < 2 ^ 32"
    using unsigned_less [of "SECRET_STORAGE_SIZE cfg"] by simp
  then have "unat (off + len) = unat off + unat len"
    using assms by (simp add: unat_word_ariths)
  then show ?thesis using assms by (simp add: word_less_nat_alt)
qed

lemma two_sector_cfg_ok: "config_ok two_sector_cfg"
proof -
  have "flash_geometry two_sector_cfg"
    unfolding flash_geometry_def
  proof (rule bexI [of _ 12], rule bexI [of _ 8])
    show "FLASH_SECTOR_SIZE two_sector_cfg = 2 ^ 12 \<and> FLASH_PAGE_SIZE two_sector_cfg = 2 ^ 8"
      by (simp add: two_sector_cfg_def)
  qed simp_all
  then show ?thesis
    by (simp add: config_ok_def static_asserts_def two_sector_cfg_def SECRET_STORAGE_BASE_def)
qed

lemma status_slot: "(c # replicate 31 (0::u8))[0 + 1 := s] = c # s # replicate 30 0"
  by (simp add: numeral_eq_Suc)

section \<open>The busy flag during a call\<close>



















section \<open>The claims\<close>

subsection \<open>C1\<close>

text \<open>
  C1 does not hold of the code. A WRITE behind a report ID whose size byte is 26 passes
  the size check, and the engine then copies 26 bytes starting at index 7 of the 32-byte
  array \<^verbatim>\<open>req\<close>: the last of them is \<^verbatim>\<open>req[32]\<close>, one past the array. In the example
  build, idle and with no key event:
\<close>

theorem C1_prefixed_write_overread:
  "raw_hid_receive_kb example_cfg [] example_state prefixed_write_frame
     = Faults (ReqOverread 32)"
proof -
  let ?st1 = "example_state\<lparr>secret_busy := True, secret_abort := False\<rparr>"
  have len: "length prefixed_write_frame = 32"
    and cl: "classify prefixed_write_frame = Some (1, SECRET_CMD_WRITE)"
    by (simp_all add: prefixed_write_frame_def classify_def cmd_defs)
  have nb: "\<not> secret_busy example_state" by (simp add: example_state_def)
  have sz: "prefixed_write_frame ! (1 + 5) = 26"
    and off: "read_u32_be prefixed_write_frame (1 + 1) = 0"
    by (simp_all add: prefixed_write_frame_def read_u32_be_def)
  have pos: "(ucast (26 :: u8) :: u32) \<noteq> 0" by simp
  have pl: "poll example_cfg ?st1 [] = (?st1, [])" by (simp add: poll_def)
  have na: "\<not> secret_abort ?st1" by simp
  have addr: "unat (secret_flash_offset example_cfg 0) mod 2 ^ 12 = 0"
    by (simp add: secret_flash_offset_def SECRET_STORAGE_BASE_def example_cfg_def)
  have unfit: "length prefixed_write_frame
                 < (1 + 6) + min (2 ^ 12 - unat (secret_flash_offset example_cfg 0) mod 2 ^ 12)
                               (unat (ucast (26 :: u8) :: u32))"
    unfolding addr len by simp
  have run: "write_loop example_cfg prefixed_write_frame ?st1 []
               (secret_flash_offset example_cfg 0) (1 + 6) (ucast (26 :: u8)) =
             Some (Inl (ReqOverread 32))"
    using write_loop_overread [OF example_sector _ pos pl na unfit] addr
    by simp
  have rng: "\<not> SECRET_STORAGE_SIZE example_cfg < 0 + ucast (26 :: u8)"
    by (simp add: example_cfg_def)
  show ?thesis
    unfolding write_request [OF len cl nb] sz off secret_write_bytes_def run
    using rng by (simp add: SECRET_MAX_WRITE_def)
qed

subsection \<open>C2\<close>

text \<open>
  C2 does not hold of the code. Line 171 and line 199 add offset and size in 32 bits, so
  a sum that passes \<open>2 ^ 32\<close> wraps to a small value and passes the range check. In the
  example build, idle and with no key event: the READ of 28 bytes at offset \<open>0xFFFFFFFF\<close>
  answers OK and its first payload byte is the flash byte just below the region; the
  WRITE of two bytes at the same offset answers OK and stores its first byte there.
\<close>

theorem C2_wrapped_offset_accepted:
  "response (raw_hid_receive_kb example_cfg [] example_state wrapped_read_frame) ! 1
     = SECRET_STATUS_OK \<and>
   response (raw_hid_receive_kb example_cfg [] example_state wrapped_read_frame) ! 3
     = flash example_state (SECRET_STORAGE_BASE example_cfg - 1) \<and>
   response (raw_hid_receive_kb example_cfg [] example_state wrapped_write_frame) ! 1
     = SECRET_STATUS_OK \<and>
   map_option (\<lambda>s. flash s (SECRET_STORAGE_BASE example_cfg - 1))
     (final_state (raw_hid_receive_kb example_cfg [] example_state wrapped_write_frame))
     = Some 0xAA"
proof -
  have nb: "\<not> secret_busy example_state" by (simp add: example_state_def)
  have m1: "(0xFFFFFFFF :: u32) = - 1" by simp
  have geo: "flash_geometry example_cfg" by (rule example_geometry)
  have rl: "length wrapped_read_frame = 32"
    and rc: "classify wrapped_read_frame = Some (0, SECRET_CMD_READ)"
    by (simp_all add: wrapped_read_frame_def classify_def cmd_defs)
  have rs: "wrapped_read_frame ! (0 + 5) = 28"
    and ro: "read_u32_be wrapped_read_frame (0 + 1) = 0xFFFFFFFF"
    by (simp_all add: wrapped_read_frame_def read_u32_be_def)
  have rv: "wrapped_read_frame ! (0 + 5) \<noteq> 0" "wrapped_read_frame ! (0 + 5) \<le> SECRET_MAX_READ"
    unfolding rs by (simp_all add: SECRET_MAX_READ_def)
  have rr: "\<not> read_u32_be wrapped_read_frame (0 + 1) + ucast (wrapped_read_frame ! (0 + 5))
              > SECRET_STORAGE_SIZE example_cfg"
    unfolding rs ro by (simp add: example_cfg_def)
  from read_run [OF rl rc nb rv rr, of "[]"]
  obtain d where
    r1: "raw_hid_receive_kb example_cfg [] example_state wrapped_read_frame
           = Returns (example_state\<lparr>secret_abort := False\<rparr>) d"
    and r2: "d ! (0 + 1) = SECRET_STATUS_OK"
    and r3: "\<forall>i < unat (wrapped_read_frame ! (0 + 5)).
               d ! (0 + 3 + i) = flash example_state
                 (secret_flash_offset example_cfg (read_u32_be wrapped_read_frame (0 + 1)) + of_nat i)"
    by auto
  have "(0::nat) < unat (wrapped_read_frame ! (0 + 5))" unfolding rs by simp
  with r3 have "d ! (0 + 3 + 0) = flash example_state
      (secret_flash_offset example_cfg (read_u32_be wrapped_read_frame (0 + 1)) + of_nat 0)"
    by blast
  then have r4: "d ! 3 = flash example_state (SECRET_STORAGE_BASE example_cfg - 1)"
    unfolding ro m1 by (simp add: secret_flash_offset_def)
  have wl: "length wrapped_write_frame = 32"
    and wc: "classify wrapped_write_frame = Some (0, SECRET_CMD_WRITE)"
    by (simp_all add: wrapped_write_frame_def classify_def cmd_defs)
  have ws: "wrapped_write_frame ! (0 + 5) = 2"
    and wo: "read_u32_be wrapped_write_frame (0 + 1) = 0xFFFFFFFF"
    and wp: "wrapped_write_frame ! 6 = 0xAA"
    by (simp_all add: wrapped_write_frame_def read_u32_be_def)
  have wv: "wrapped_write_frame ! (0 + 5) \<noteq> 0" "wrapped_write_frame ! (0 + 5) \<le> SECRET_MAX_WRITE"
    unfolding ws by (simp_all add: SECRET_MAX_WRITE_def)
  have wr: "\<not> read_u32_be wrapped_write_frame (0 + 1) + ucast (wrapped_write_frame ! (0 + 5))
              > SECRET_STORAGE_SIZE example_cfg"
    unfolding ws wo by (simp add: example_cfg_def)
  have wf: "0 + 6 + unat (wrapped_write_frame ! (0 + 5)) \<le> 32" unfolding ws by simp
  from write_run [OF geo wl wc nb wv wr wf, of "[]"]
  obtain st' where
    w1: "raw_hid_receive_kb example_cfg [] example_state wrapped_write_frame =
           Returns st' ((wrapped_write_frame ! 0 # replicate 31 0)[0 + 1 := SECRET_STATUS_OK])"
    and w2: "flash st' (SECRET_STORAGE_BASE example_cfg - 1) = wrapped_write_frame ! 6"
    unfolding ws wo m1
    by (auto simp add: write_aborted_def write_progress_def secret_flash_offset_def)
  show ?thesis
    unfolding r1 w1 using r2 r4 w2 wp by (simp add: response_def final_state_def)
qed

subsection \<open>C3\<close>

text \<open>
  C3, as the code has it. An INFO request, in either framing and whether or not the
  engine is busy, leaves the engine state alone and answers with the status OK one byte
  after the command byte, then the storage size, the total flash size, the backing size
  and the storage base as big-endian 32-bit values at offsets 2, 6, 10 and 14 from the
  command byte, then the read limit 28 at offset 18 and the write limit 26 at offset 19.
\<close>

theorem C3_info_layout:
  fixes cfg env st data base
  defines "out \<equiv> raw_hid_receive_kb cfg env st data"
  assumes "length data = 32" and "classify data = Some (base, SECRET_CMD_INFO)"
  shows "final_state out = Some st \<and>
         length (response out) = 32 \<and>
         response out ! (base + 1) = SECRET_STATUS_OK \<and>
         read_u32_be (response out) (base + 2) = SECRET_STORAGE_SIZE cfg \<and>
         read_u32_be (response out) (base + 6) = PICO_FLASH_SIZE_BYTES cfg \<and>
         read_u32_be (response out) (base + 10) = WEAR_LEVELING_BACKING_SIZE cfg \<and>
         read_u32_be (response out) (base + 14) = SECRET_STORAGE_BASE cfg \<and>
         response out ! (base + 18) = SECRET_MAX_READ \<and>
         response out ! (base + 19) = SECRET_MAX_WRITE"
proof -
  from assms(3) have b: "base \<le> 1" by (auto dest: classify_cases)
  have l: "length (data ! 0 # replicate 31 (0::u8)) = 32" by simp
  show ?thesis
    unfolding out_def info_response [OF assms(2,3)]
    using info_bytes_layout [OF l b, of cfg]
    by (simp add: final_state_def response_def)
qed

text \<open>
  A prefixed INFO request with report ID 7, received while busy, in the example build:
  the limits are at indices 19 and 20 of the response.
\<close>

theorem C3_info_layout_witness:
  "length (7 # SECRET_CMD_INFO # replicate 30 (0::u8)) = 32 \<and>
   classify (7 # SECRET_CMD_INFO # replicate 30 0) = Some (1, SECRET_CMD_INFO) \<and>
   response (raw_hid_receive_kb example_cfg [] (example_state\<lparr>secret_busy := True\<rparr>)
      (7 # SECRET_CMD_INFO # replicate 30 0)) ! 19 = SECRET_MAX_READ \<and>
   response (raw_hid_receive_kb example_cfg [] (example_state\<lparr>secret_busy := True\<rparr>)
      (7 # SECRET_CMD_INFO # replicate 30 0)) ! 20 = SECRET_MAX_WRITE"
proof -
  have c: "classify (7 # SECRET_CMD_INFO # replicate 30 0) = Some (1, SECRET_CMD_INFO)"
    by (simp add: classify_def cmd_defs)
  have l: "length (7 # SECRET_CMD_INFO # replicate 30 (0::u8)) = 32" by simp
  show ?thesis
    using C3_info_layout [OF l c, of example_cfg "[]" "example_state\<lparr>secret_busy := True\<rparr>"] c
    by simp
qed

text \<open>
  The layout as the specification numbers it does not hold: for the unprefixed INFO
  request in the example build, offset 18 from the command byte holds the read limit 28,
  not the write limit 26 (and offset 0 still holds the command byte).
\<close>

theorem C3_counterexample:
  "\<not> claimed_info_layout example_cfg 0
       (response (raw_hid_receive_kb example_cfg [] example_state
          (SECRET_CMD_INFO # replicate 31 0)))"
proof -
  have c: "classify (SECRET_CMD_INFO # replicate 31 0) = Some (0, SECRET_CMD_INFO)"
    by (simp add: classify_def cmd_defs)
  have l: "length (SECRET_CMD_INFO # replicate 31 (0::u8)) = 32" by simp
  have l': "length ((SECRET_CMD_INFO # replicate 31 (0::u8)) ! 0 # replicate 31 (0::u8)) = 32"
    by simp
  have "response (raw_hid_receive_kb example_cfg [] example_state
          (SECRET_CMD_INFO # replicate 31 0)) ! 18 = SECRET_MAX_READ"
    unfolding info_response [OF l c]
    using info_bytes_layout(6) [OF l', of 0 example_cfg]
    by (simp add: response_def)
  then show ?thesis
    by (simp add: claimed_info_layout_def SECRET_MAX_READ_def SECRET_MAX_WRITE_def)
qed

subsection \<open>C4\<close>

text \<open>
  C4. Let a WRITE request carry \<open>N\<close> payload bytes, \<open>1 \<le> N \<le> 26\<close>, all of them inside
  its 32-byte frame, at an offset with \<open>offset + N\<close> within the region, and let a READ
  request ask for \<open>N\<close> bytes at the same offset. When the engine is idle and no Escape
  press arrives during either request, the WRITE and then the READ both answer OK, the
  READ echoes \<open>N\<close>, and its payload is the payload of the WRITE. Either request may
  use either framing.
\<close>

theorem C4_roundtrip:
  fixes cfg st wenv renv wdata rdata wb rb
  defines "N \<equiv> wdata ! (wb + 5)"
    and "off \<equiv> read_u32_be wdata (wb + 1)"
  assumes cfg: "config_ok cfg"
    and w: "length wdata = 32" "classify wdata = Some (wb, SECRET_CMD_WRITE)"
    and r: "length rdata = 32" "classify rdata = Some (rb, SECRET_CMD_READ)"
    and same: "rdata ! (rb + 5) = N" "read_u32_be rdata (rb + 1) = off"
    and N: "1 \<le> unat N" "unat N \<le> 26"
    and inrange: "unat off + unat N \<le> unat (SECRET_STORAGE_SIZE cfg)"
    and fit: "wb + 6 + unat N \<le> 32"
    and quiet: "first_abort cfg wenv = None" "first_abort cfg renv = None"
    and idle: "\<not> secret_busy st"
  shows "\<exists>st1 d1 st2 d2.
           raw_hid_receive_kb cfg wenv st wdata = Returns st1 d1 \<and>
           d1 ! (wb + 1) = SECRET_STATUS_OK \<and>
           raw_hid_receive_kb cfg renv st1 rdata = Returns st2 d2 \<and>
           d2 ! (rb + 1) = SECRET_STATUS_OK \<and>
           d2 ! (rb + 2) = N \<and>
           take (unat N) (drop (rb + 3) d2) = take (unat N) (drop (wb + 6) wdata)"
proof -
  from cfg have geo: "flash_geometry cfg" by (simp add: config_ok_def)
  from w(2) have wb: "wb = 0 \<or> wb = 1" by (auto dest: classify_cases)
  from r(2) have rb: "rb = 0 \<or> rb = 1" by (auto dest: classify_cases)
  let ?addr = "secret_flash_offset cfg off"
  let ?len = "ucast N :: u32"
  have Nz: "N \<noteq> 0" using N(1) by (auto simp add: unat_eq_zero [symmetric] simp del: unat_eq_zero)
  have Nw: "N \<le> SECRET_MAX_WRITE" using N(2) by (simp add: SECRET_MAX_WRITE_def word_le_nat_alt)
  have Nr: "N \<le> SECRET_MAX_READ" using N(2) by (simp add: SECRET_MAX_READ_def word_le_nat_alt)
  have rng: "\<not> off + ucast N > SECRET_STORAGE_SIZE cfg"
    using inrange by (rule range_check_passes)
  have wp: "write_progress cfg wenv ?addr ?len = unat N"
    using quiet(1) by (simp add: write_progress_def unat_ucast_u8)
  have wa: "\<not> write_aborted cfg wenv ?addr ?len"
    using quiet(1) by (simp add: write_aborted_def)
  from write_run [OF geo w idle, of wenv] Nz Nw rng fit
  obtain st1 where
    w1: "raw_hid_receive_kb cfg wenv st wdata =
           Returns st1 ((wdata ! 0 # replicate 31 0)[wb + 1 := SECRET_STATUS_OK])"
    and f1: "flash st1 = (\<lambda>a. if unat (a - ?addr) < unat N
                                 then wdata ! (wb + 6 + unat (a - ?addr)) else flash st a)"
    and b1: "\<not> secret_busy st1"
    unfolding N_def [symmetric] off_def [symmetric] wp using wa by auto
  have s1: "((wdata ! 0 # replicate 31 0)[wb + 1 := SECRET_STATUS_OK]) ! (wb + 1) = SECRET_STATUS_OK"
    using wb by auto
  from read_run [OF r b1, of cfg renv] Nz Nr rng same quiet(2)
  obtain d2 where
    r2: "raw_hid_receive_kb cfg renv st1 rdata = Returns (st1\<lparr>secret_abort := False\<rparr>) d2"
    and l2: "length d2 = 32"
    and s2: "d2 ! (rb + 1) = SECRET_STATUS_OK"
    and n2: "d2 ! (rb + 2) = N"
    and p2: "\<forall>i < unat N. d2 ! (rb + 3 + i) = flash st1 (?addr + of_nat i)"
    by auto
  have pay: "take (unat N) (drop (rb + 3) d2) = take (unat N) (drop (wb + 6) wdata)"
  proof (rule nth_equalityI)
    show "length (take (unat N) (drop (rb + 3) d2)) = length (take (unat N) (drop (wb + 6) wdata))"
      using l2 w(1) N(2) fit rb by auto
  next
    fix i
    assume "i < length (take (unat N) (drop (rb + 3) d2))"
    then have i: "i < unat N" by simp
    then have "i < 2 ^ 32" using N(2) by simp
    then have ui: "unat (of_nat i :: u32) = i" by (simp add: unat_of_nat)
    have "flash st1 (?addr + of_nat i) = wdata ! (wb + 6 + i)"
      unfolding f1 using i ui by simp
    moreover have "take (unat N) (drop (rb + 3) d2) ! i = d2 ! (rb + 3 + i)"
      using i l2 rb by auto
    moreover have "take (unat N) (drop (wb + 6) wdata) ! i = wdata ! (wb + 6 + i)"
      using i w(1) fit by auto
    ultimately show "take (unat N) (drop (rb + 3) d2) ! i = take (unat N) (drop (wb + 6) wdata) ! i"
      using i p2 by simp
  qed
  show ?thesis using w1 s1 r2 s2 n2 pay by blast
qed

text \<open>The specification's example: the 26 bytes 1 to 26 written at offset 0 and read back.\<close>

theorem C4_roundtrip_witness:
  "\<exists>st1 d1 st2 d2.
     raw_hid_receive_kb example_cfg [] example_state example_write_frame = Returns st1 d1 \<and>
     d1 ! 1 = SECRET_STATUS_OK \<and>
     raw_hid_receive_kb example_cfg [] st1 example_read_frame = Returns st2 d2 \<and>
     d2 ! 1 = SECRET_STATUS_OK \<and>
     d2 ! 2 = 26 \<and>
     take 26 (drop 3 d2) = drop 6 example_write_frame"
proof -
  have w: "length example_write_frame = 32"
    "classify example_write_frame = Some (0, SECRET_CMD_WRITE)"
    by (simp_all add: example_write_frame_def classify_def cmd_defs)
  have r: "length example_read_frame = 32"
    "classify example_read_frame = Some (0, SECRET_CMD_READ)"
    by (simp_all add: example_read_frame_def classify_def cmd_defs)
  have n: "example_write_frame ! 5 = 26"
    by (simp add: example_write_frame_def)
  have same: "example_read_frame ! (0 + 5) = example_write_frame ! (0 + 5)"
    "read_u32_be example_read_frame (0 + 1) = read_u32_be example_write_frame (0 + 1)"
    by (simp_all add: example_write_frame_def example_read_frame_def read_u32_be_def)
  have N: "1 \<le> unat (example_write_frame ! (0 + 5))" "unat (example_write_frame ! (0 + 5)) \<le> 26"
    by (simp_all add: n)
  have inrange: "unat (read_u32_be example_write_frame (0 + 1)) + unat (example_write_frame ! (0 + 5))
                   \<le> unat (SECRET_STORAGE_SIZE example_cfg)"
    by (simp add: example_write_frame_def read_u32_be_def example_cfg_def)
  have fit: "0 + 6 + unat (example_write_frame ! (0 + 5)) \<le> 32" by (simp add: n)
  have quiet: "first_abort example_cfg [] = None" by simp
  have idle: "\<not> secret_busy example_state" by (simp add: example_state_def)
  have t: "take 26 (drop 6 example_write_frame) = drop 6 example_write_frame"
    by (simp add: example_write_frame_def)
  from C4_roundtrip [OF example_cfg_ok w r same N inrange fit quiet quiet idle]
  show ?thesis by (simp add: n t del: add_2_eq_Suc add_2_eq_Suc')
qed

subsection \<open>C5\<close>

text \<open>
  C5. Take an idle engine, a build that satisfies the static assertions, and an ERASE or
  a WRITE request that passes validation (for WRITE, with its payload inside the frame).
  Whatever key events arrive, and whenever they arrive, the call returns with
  \<^verbatim>\<open>secret_busy\<close> clear, and:
  \<^item> the flash differs from the flash before the call exactly on a prefix of the
    requested range, made of whole units: the sectors (erased to all ones) or the chunks
    (holding the payload) that were started before the first batch of key events with an
    Escape press was seen. A unit once started is completed; no unit is started after
    the press was seen; every byte outside that prefix is unchanged;
  \<^item> the status is ABORT exactly when such a press arrives before the operation is over,
    also when it arrives during the last unit, where the engine itself reports success;
    otherwise the status is OK.
  \<open>erase_progress\<close>, \<open>write_progress\<close>, \<open>erase_aborted\<close> and \<open>write_aborted\<close> spell out
  the prefix and the condition in terms of the schedule.
\<close>

theorem C5_abort_at_unit_boundary:
  fixes cfg env st data base
  defines "off \<equiv> read_u32_be data (base + 1)"
  defines "addr \<equiv> secret_flash_offset cfg off"
    and "elen \<equiv> read_u32_be data (base + 5)"
    and "wlen \<equiv> ucast (data ! (base + 5)) :: u32"
  defines "n \<equiv> unat elen div unat (FLASH_SECTOR_SIZE cfg)"
  assumes cfg: "config_ok cfg" and len32: "length data = 32" and idle: "\<not> secret_busy st"
  shows "(classify data = Some (base, SECRET_CMD_ERASE) \<and> elen \<noteq> 0 \<and>
          unat off + unat elen \<le> unat (SECRET_STORAGE_SIZE cfg) \<and>
          off mod FLASH_SECTOR_SIZE cfg = 0 \<and> elen mod FLASH_SECTOR_SIZE cfg = 0 \<longrightarrow>
          (\<exists>st'. raw_hid_receive_kb cfg env st data =
                    Returns st' ((data ! 0 # replicate 31 0)
                      [base + 1 := (if erase_aborted cfg env n then SECRET_STATUS_ABORT
                                    else SECRET_STATUS_OK)]) \<and>
                 flash st' = (\<lambda>a. if unat (a - addr)
                                        < erase_progress cfg env n * unat (FLASH_SECTOR_SIZE cfg)
                                    then - 1 else flash st a) \<and>
                 \<not> secret_busy st')) \<and>
         (classify data = Some (base, SECRET_CMD_WRITE) \<and> wlen \<noteq> 0 \<and> unat wlen \<le> 26 \<and>
          unat off + unat wlen \<le> unat (SECRET_STORAGE_SIZE cfg) \<and>
          base + 6 + unat wlen \<le> 32 \<longrightarrow>
          (\<exists>st'. raw_hid_receive_kb cfg env st data =
                    Returns st' ((data ! 0 # replicate 31 0)
                      [base + 1 := (if write_aborted cfg env addr wlen then SECRET_STATUS_ABORT
                                    else SECRET_STATUS_OK)]) \<and>
                 flash st' = (\<lambda>a. if unat (a - addr) < write_progress cfg env addr wlen
                                    then data ! (base + 6 + unat (a - addr)) else flash st a) \<and>
                 \<not> secret_busy st'))"
proof (intro conjI impI)
  from cfg have geo: "flash_geometry cfg" and sa: "static_asserts cfg"
    by (simp_all add: config_ok_def)
  {
    assume a: "classify data = Some (base, SECRET_CMD_ERASE) \<and> elen \<noteq> 0 \<and>
          unat off + unat elen \<le> unat (SECRET_STORAGE_SIZE cfg) \<and>
          off mod FLASH_SECTOR_SIZE cfg = 0 \<and> elen mod FLASH_SECTOR_SIZE cfg = 0"
    then have cl: "classify data = Some (base, SECRET_CMD_ERASE)"
      and nz: "read_u32_be data (base + 5) \<noteq> 0"
      and inr: "unat off + unat elen \<le> unat (SECRET_STORAGE_SIZE cfg)"
      and al: "read_u32_be data (base + 1) mod FLASH_SECTOR_SIZE cfg = 0"
        "read_u32_be data (base + 5) mod FLASH_SECTOR_SIZE cfg = 0"
      by (simp_all add: off_def elen_def)
    have rng: "\<not> read_u32_be data (base + 1) + read_u32_be data (base + 5) > SECRET_STORAGE_SIZE cfg"
      using inr unfolding off_def elen_def by (rule erase_range_check_passes)
    have nowrap: "unat (secret_flash_offset cfg (read_u32_be data (base + 1)))
                    + unat (read_u32_be data (base + 5)) < 2 ^ 32"
      using region_no_wrap(2) [OF sa inr] by (simp add: off_def elen_def)
    from erase_run [OF geo len32 cl idle nz rng al nowrap, of env]
    show "\<exists>st'. raw_hid_receive_kb cfg env st data =
                    Returns st' ((data ! 0 # replicate 31 0)
                      [base + 1 := (if erase_aborted cfg env n then SECRET_STATUS_ABORT
                                    else SECRET_STATUS_OK)]) \<and>
                 flash st' = (\<lambda>a. if unat (a - addr)
                                        < erase_progress cfg env n * unat (FLASH_SECTOR_SIZE cfg)
                                    then - 1 else flash st a) \<and>
                 \<not> secret_busy st'"
      unfolding n_def elen_def addr_def off_def by blast
  }
  {
    assume a: "classify data = Some (base, SECRET_CMD_WRITE) \<and> wlen \<noteq> 0 \<and> unat wlen \<le> 26 \<and>
          unat off + unat wlen \<le> unat (SECRET_STORAGE_SIZE cfg) \<and>
          base + 6 + unat wlen \<le> 32"
    define sz where "sz = data ! (base + 5)"
    have uw: "unat wlen = unat sz" by (simp add: wlen_def sz_def unat_ucast_u8)
    from a have cl: "classify data = Some (base, SECRET_CMD_WRITE)" by simp
    from a uw have sz0: "sz \<noteq> 0" by (auto simp add: wlen_def sz_def)
    from a uw have sz26: "sz \<le> SECRET_MAX_WRITE"
      by (simp add: SECRET_MAX_WRITE_def word_le_nat_alt)
    from a uw have inr: "unat off + unat sz \<le> unat (SECRET_STORAGE_SIZE cfg)" by simp
    have rng: "\<not> off + ucast sz > SECRET_STORAGE_SIZE cfg"
      using inr by (rule range_check_passes)
    from a uw have fit: "base + 6 + unat sz \<le> 32" by simp
    from write_run [OF geo len32 cl idle sz0 [unfolded sz_def] sz26 [unfolded sz_def]
        rng [unfolded sz_def off_def] fit [unfolded sz_def], of env]
    show "\<exists>st'. raw_hid_receive_kb cfg env st data =
                    Returns st' ((data ! 0 # replicate 31 0)
                      [base + 1 := (if write_aborted cfg env addr wlen then SECRET_STATUS_ABORT
                                    else SECRET_STATUS_OK)]) \<and>
                 flash st' = (\<lambda>a. if unat (a - addr) < write_progress cfg env addr wlen
                                    then data ! (base + 6 + unat (a - addr)) else flash st a) \<and>
                 \<not> secret_busy st'"
      unfolding wlen_def addr_def off_def by blast
  }
qed

text \<open>
  In the build with a region of two sectors, Escape is pressed while the first unit is
  under way. The ERASE of both sectors answers ABORT with the first sector erased and
  the second untouched. The WRITE of 26 bytes at offset 4090 answers ABORT with the 6
  bytes of its first chunk, up to the sector boundary, written and nothing else changed.
\<close>

theorem C5_abort_at_unit_boundary_witness:
  "(\<exists>st'. raw_hid_receive_kb two_sector_cfg [[], [(0x29, True)]] example_state
             two_sector_erase_frame =
           Returns st' (0xA3 # SECRET_STATUS_ABORT # replicate 30 0) \<and>
         flash st' = (\<lambda>a. if unat (a - SECRET_STORAGE_BASE two_sector_cfg) < 4096
                            then - 1 else flash example_state a) \<and>
         \<not> secret_busy st') \<and>
   (\<exists>st'. raw_hid_receive_kb two_sector_cfg [[], [(0x29, True)]] example_state
             crossing_write_frame =
           Returns st' (0xA2 # SECRET_STATUS_ABORT # replicate 30 0) \<and>
         flash st' = (\<lambda>a. if unat (a - (SECRET_STORAGE_BASE two_sector_cfg + 4090)) < 6
                            then crossing_write_frame
                                   ! (0 + 6 + unat (a - (SECRET_STORAGE_BASE two_sector_cfg + 4090)))
                            else flash example_state a) \<and>
         \<not> secret_busy st')"
proof
  let ?env = "[[], [(0x29, True)]] :: schedule"
  have idle: "\<not> secret_busy example_state" by (simp add: example_state_def)
  have fa: "first_abort two_sector_cfg ?env = Some 1"
    by (simp add: esc_pressed_def two_sector_cfg_def)
  have el: "length two_sector_erase_frame = 32"
    and ec: "classify two_sector_erase_frame = Some (0, SECRET_CMD_ERASE)"
    by (simp_all add: two_sector_erase_frame_def classify_def cmd_defs)
  have eo: "read_u32_be two_sector_erase_frame (0 + 1) = 0"
    and es: "read_u32_be two_sector_erase_frame (0 + 5) = 0x2000"
    and e0: "two_sector_erase_frame ! 0 = 0xA3"
    by (simp_all add: two_sector_erase_frame_def read_u32_be_def)
  have ehyp: "classify two_sector_erase_frame = Some (0, SECRET_CMD_ERASE) \<and>
      read_u32_be two_sector_erase_frame (0 + 5) \<noteq> 0 \<and>
      unat (read_u32_be two_sector_erase_frame (0 + 1))
        + unat (read_u32_be two_sector_erase_frame (0 + 5))
        \<le> unat (SECRET_STORAGE_SIZE two_sector_cfg) \<and>
      read_u32_be two_sector_erase_frame (0 + 1) mod FLASH_SECTOR_SIZE two_sector_cfg = 0 \<and>
      read_u32_be two_sector_erase_frame (0 + 5) mod FLASH_SECTOR_SIZE two_sector_cfg = 0"
    unfolding eo es using ec by (simp add: two_sector_cfg_def)
  have en: "unat (0x2000 :: u32) div unat (FLASH_SECTOR_SIZE two_sector_cfg) = 2"
    and uS: "unat (FLASH_SECTOR_SIZE two_sector_cfg) = 4096"
    by (simp_all add: two_sector_cfg_def)
  have ep: "erase_progress two_sector_cfg ?env 2 = 1" "erase_aborted two_sector_cfg ?env 2"
    using fa by (simp_all add: erase_progress_def erase_aborted_def)
  have sa: "secret_flash_offset two_sector_cfg 0 = SECRET_STORAGE_BASE two_sector_cfg"
    by (simp add: secret_flash_offset_def)
  from C5_abort_at_unit_boundary [OF two_sector_cfg_ok el idle, of 0 ?env] ehyp
  have "\<exists>st'. raw_hid_receive_kb two_sector_cfg ?env example_state two_sector_erase_frame =
           Returns st' ((two_sector_erase_frame ! 0 # replicate 31 0)
             [0 + 1 := (if erase_aborted two_sector_cfg ?env
                  (unat (read_u32_be two_sector_erase_frame (0 + 5))
                     div unat (FLASH_SECTOR_SIZE two_sector_cfg))
                then SECRET_STATUS_ABORT else SECRET_STATUS_OK)]) \<and>
         flash st' = (\<lambda>a. if unat (a - secret_flash_offset two_sector_cfg
                                          (read_u32_be two_sector_erase_frame (0 + 1)))
                              < erase_progress two_sector_cfg ?env
                                  (unat (read_u32_be two_sector_erase_frame (0 + 5))
                                     div unat (FLASH_SECTOR_SIZE two_sector_cfg))
                                * unat (FLASH_SECTOR_SIZE two_sector_cfg)
                            then - 1 else flash example_state a) \<and>
         \<not> secret_busy st'"
    by blast
  then show "\<exists>st'. raw_hid_receive_kb two_sector_cfg ?env example_state two_sector_erase_frame =
           Returns st' (0xA3 # SECRET_STATUS_ABORT # replicate 30 0) \<and>
         flash st' = (\<lambda>a. if unat (a - SECRET_STORAGE_BASE two_sector_cfg) < 4096
                            then - 1 else flash example_state a) \<and>
         \<not> secret_busy st'"
    unfolding eo es en ep uS e0 sa status_slot
    by (simp add: ep)
next
  let ?env = "[[], [(0x29, True)]] :: schedule"
  let ?addr = "SECRET_STORAGE_BASE two_sector_cfg + 4090"
  have idle: "\<not> secret_busy example_state" by (simp add: example_state_def)
  have fa: "first_abort two_sector_cfg ?env = Some 1"
    by (simp add: esc_pressed_def two_sector_cfg_def)
  have wl: "length crossing_write_frame = 32"
    and wc: "classify crossing_write_frame = Some (0, SECRET_CMD_WRITE)"
    by (simp_all add: crossing_write_frame_def classify_def cmd_defs)
  have wo: "read_u32_be crossing_write_frame (0 + 1) = 4090"
    and ws: "crossing_write_frame ! (0 + 5) = 26"
    and w0: "crossing_write_frame ! 0 = 0xA2"
    by (simp_all add: crossing_write_frame_def read_u32_be_def)
  have whyp: "classify crossing_write_frame = Some (0, SECRET_CMD_WRITE) \<and>
      (ucast (crossing_write_frame ! (0 + 5)) :: u32) \<noteq> 0 \<and>
      unat (ucast (crossing_write_frame ! (0 + 5)) :: u32) \<le> 26 \<and>
      unat (read_u32_be crossing_write_frame (0 + 1))
        + unat (ucast (crossing_write_frame ! (0 + 5)) :: u32)
        \<le> unat (SECRET_STORAGE_SIZE two_sector_cfg) \<and>
      0 + 6 + unat (ucast (crossing_write_frame ! (0 + 5)) :: u32) \<le> 32"
    unfolding wo ws using wc by (simp add: two_sector_cfg_def)
  have ce1: "chunk_end two_sector_cfg ?addr 1 = 6"
    and ce0: "chunk_end two_sector_cfg ?addr 0 = 0"
    by (simp_all add: chunk_end_def SECRET_STORAGE_BASE_def two_sector_cfg_def)
  have wp: "write_progress two_sector_cfg ?env ?addr (ucast (26 :: u8)) = 6"
    "write_aborted two_sector_cfg ?env ?addr (ucast (26 :: u8))"
    using fa ce1 ce0 by (simp_all add: write_progress_def write_aborted_def)
  have wp': "write_progress two_sector_cfg ?env ?addr 26 = 6"
    "write_aborted two_sector_cfg ?env ?addr 26"
    using wp by simp_all
  have sa: "secret_flash_offset two_sector_cfg 4090 = ?addr"
    by (simp add: secret_flash_offset_def)
  from C5_abort_at_unit_boundary [OF two_sector_cfg_ok wl idle, of 0 ?env] whyp
  have "\<exists>st'. raw_hid_receive_kb two_sector_cfg ?env example_state crossing_write_frame =
           Returns st' ((crossing_write_frame ! 0 # replicate 31 0)
             [0 + 1 := (if write_aborted two_sector_cfg ?env
                  (secret_flash_offset two_sector_cfg (read_u32_be crossing_write_frame (0 + 1)))
                  (ucast (crossing_write_frame ! (0 + 5)))
                then SECRET_STATUS_ABORT else SECRET_STATUS_OK)]) \<and>
         flash st' = (\<lambda>a. if unat (a - secret_flash_offset two_sector_cfg
                                          (read_u32_be crossing_write_frame (0 + 1)))
                              < write_progress two_sector_cfg ?env
                                  (secret_flash_offset two_sector_cfg
                                     (read_u32_be crossing_write_frame (0 + 1)))
                                  (ucast (crossing_write_frame ! (0 + 5)))
                            then crossing_write_frame
                                   ! (0 + 6 + unat (a - secret_flash_offset two_sector_cfg
                                          (read_u32_be crossing_write_frame (0 + 1))))
                            else flash example_state a) \<and>
         \<not> secret_busy st'"
    by blast
  then show "\<exists>st'. raw_hid_receive_kb two_sector_cfg ?env example_state crossing_write_frame =
           Returns st' (0xA2 # SECRET_STATUS_ABORT # replicate 30 0) \<and>
         flash st' = (\<lambda>a. if unat (a - ?addr) < 6
                            then crossing_write_frame ! (0 + 6 + unat (a - ?addr))
                            else flash example_state a) \<and>
         \<not> secret_busy st'"
    unfolding wo ws sa wp w0 status_slot
    by (simp add: wp')
qed

subsection \<open>C6\<close>

text \<open>
  C6. While \<^verbatim>\<open>secret_busy\<close> is set, a READ, WRITE or ERASE request in either framing is
  answered with the status BUSY. The response is byte 0 of the request followed by zeros,
  with the status one byte after the command byte: no argument of the request enters it.
  The engine state, flash included, is returned as it was.
\<close>

theorem C6_busy:
  assumes "length data = 32"
    and "classify data = Some (base, cmd)"
    and "cmd \<noteq> SECRET_CMD_INFO"
    and "secret_busy st"
  shows "raw_hid_receive_kb cfg env st data =
           Returns st ((data ! 0 # replicate 31 0)[base + 1 := SECRET_STATUS_BUSY])"
proof -
  from assms(2) have b: "base = 0 \<or> base = 1" by (auto dest: classify_cases)
  show ?thesis
    using assms b
    by (auto simp add: raw_hid_receive_kb_def dispatch_def clear_response_eq)
qed

text \<open>A WRITE request with a payload, received while busy.\<close>

theorem C6_busy_witness:
  "length (SECRET_CMD_WRITE # 0 # 0 # 0 # 0 # 3 # 1 # 2 # 3 # replicate 23 (0::u8)) = 32 \<and>
   classify (SECRET_CMD_WRITE # 0 # 0 # 0 # 0 # 3 # 1 # 2 # 3 # replicate 23 0)
     = Some (0, SECRET_CMD_WRITE) \<and>
   SECRET_CMD_WRITE \<noteq> SECRET_CMD_INFO \<and>
   secret_busy (example_state\<lparr>secret_busy := True\<rparr>) \<and>
   raw_hid_receive_kb example_cfg [] (example_state\<lparr>secret_busy := True\<rparr>)
       (SECRET_CMD_WRITE # 0 # 0 # 0 # 0 # 3 # 1 # 2 # 3 # replicate 23 0) =
     Returns (example_state\<lparr>secret_busy := True\<rparr>)
       (SECRET_CMD_WRITE # SECRET_STATUS_BUSY # replicate 30 0)"
proof -
  have c: "classify (SECRET_CMD_WRITE # 0 # 0 # 0 # 0 # 3 # 1 # 2 # 3 # replicate 23 0)
             = Some (0, SECRET_CMD_WRITE)"
    by (simp add: classify_def cmd_defs)
  have l: "length (SECRET_CMD_WRITE # 0 # 0 # 0 # 0 # 3 # 1 # 2 # 3 # replicate 23 (0::u8)) = 32"
    by simp
  have n: "SECRET_CMD_WRITE \<noteq> SECRET_CMD_INFO" by (simp add: cmd_defs)
  have r: "(SECRET_CMD_WRITE # replicate 31 (0::u8))[Suc 0 := SECRET_STATUS_BUSY]
             = SECRET_CMD_WRITE # SECRET_STATUS_BUSY # replicate 30 0"
    by (simp add: numeral_eq_Suc)
  show ?thesis
    using C6_busy [OF l c n, of "example_state\<lparr>secret_busy := True\<rparr>" example_cfg "[]"] c n r
    by simp
qed

subsection \<open>C7\<close>

text \<open>
  C7 does not hold of the code when offset plus size passes \<open>2 ^ 32\<close>: line 226 adds
  them in 32 bits, as lines 171 and 199 do. In the example build, idle and with no key
  event, the ERASE of \<open>0x2000\<close> bytes at offset \<open>0xFFFFF000\<close> is not answered with RANGE:
  it answers OK, and the sector just below the region, which held 0x00 at its first
  byte, is erased.
\<close>

theorem C7_wrapped_erase_accepted:
  "response (raw_hid_receive_kb example_cfg [] example_state wrapped_erase_frame) ! 1
     = SECRET_STATUS_OK \<and>
   flash example_state (SECRET_STORAGE_BASE example_cfg - 0x1000) = 0x00 \<and>
   map_option (\<lambda>s. flash s (SECRET_STORAGE_BASE example_cfg - 0x1000))
     (final_state (raw_hid_receive_kb example_cfg [] example_state wrapped_erase_frame))
     = Some 0xFF"
proof -
  have nb: "\<not> secret_busy example_state" by (simp add: example_state_def)
  have geo: "flash_geometry example_cfg" by (rule example_geometry)
  have l: "length wrapped_erase_frame = 32"
    and c: "classify wrapped_erase_frame = Some (0, SECRET_CMD_ERASE)"
    by (simp_all add: wrapped_erase_frame_def classify_def cmd_defs)
  have o: "read_u32_be wrapped_erase_frame (0 + 1) = 0xFFFFF000"
    and s: "read_u32_be wrapped_erase_frame (0 + 5) = 0x2000"
    by (simp_all add: wrapped_erase_frame_def read_u32_be_def)
  have nz: "read_u32_be wrapped_erase_frame (0 + 5) \<noteq> 0" unfolding s by simp
  have rng: "\<not> read_u32_be wrapped_erase_frame (0 + 1) + read_u32_be wrapped_erase_frame (0 + 5)
               > SECRET_STORAGE_SIZE example_cfg"
    unfolding o s by (simp add: example_cfg_def)
  have al: "read_u32_be wrapped_erase_frame (0 + 1) mod FLASH_SECTOR_SIZE example_cfg = 0"
    "read_u32_be wrapped_erase_frame (0 + 5) mod FLASH_SECTOR_SIZE example_cfg = 0"
    unfolding o s by (simp_all add: example_cfg_def)
  have start: "secret_flash_offset example_cfg 0xFFFFF000 = SECRET_STORAGE_BASE example_cfg - 0x1000"
    by (simp add: secret_flash_offset_def)
  have nowrap: "unat (secret_flash_offset example_cfg (read_u32_be wrapped_erase_frame (0 + 1)))
                  + unat (read_u32_be wrapped_erase_frame (0 + 5)) < 2 ^ 32"
    unfolding o s start by (simp add: SECRET_STORAGE_BASE_def example_cfg_def)
  have n: "unat (0x2000 :: u32) div unat (FLASH_SECTOR_SIZE example_cfg) = 2"
    by (simp add: example_cfg_def)
  from erase_run [OF geo l c nb nz rng al nowrap, of "[]"]
  obtain st' where
    e1: "raw_hid_receive_kb example_cfg [] example_state wrapped_erase_frame =
           Returns st' ((wrapped_erase_frame ! 0 # replicate 31 0)[0 + 1 := SECRET_STATUS_OK])"
    and e2: "flash st' (SECRET_STORAGE_BASE example_cfg - 0x1000) = - 1"
    unfolding o s n start
    by (auto simp add: erase_aborted_def erase_progress_def example_cfg_def)
  have before: "flash example_state (SECRET_STORAGE_BASE example_cfg - 0x1000) = 0x00"
    by (simp add: example_state_def SECRET_STORAGE_BASE_def example_cfg_def)
  show ?thesis
    unfolding e1 using e2 before by (simp add: response_def final_state_def)
qed

subsection \<open>C8\<close>

text \<open>
  C8. Byte 0 is looked at first: when it is a command code the frame is dispatched with
  the command at index 0. Otherwise, when byte 1 is a command code, the frame is
  dispatched with the command at index 1 and every response carries byte 0 of the
  request at index 0. When neither byte is a command code, byte 0 of the buffer becomes
  0xFF and neither the rest of the buffer nor the engine state changes.
\<close>

theorem C8_classification:
  assumes "length data = 32"
  shows "(is_command (data ! 0) \<longrightarrow>
            raw_hid_receive_kb cfg env st data = dispatch cfg env st data data 0 (data ! 0)) \<and>
         (\<not> is_command (data ! 0) \<and> is_command (data ! 1) \<longrightarrow>
            raw_hid_receive_kb cfg env st data = dispatch cfg env st data data 1 (data ! 1) \<and>
            (\<forall>st' d. raw_hid_receive_kb cfg env st data = Returns st' d \<longrightarrow> d ! 0 = data ! 0)) \<and>
         (\<not> is_command (data ! 0) \<and> \<not> is_command (data ! 1) \<longrightarrow>
            raw_hid_receive_kb cfg env st data = Returns st (data[0 := 0xFF]))"
proof (intro conjI impI)
  assume "is_command (data ! 0)"
  then have "classify data = Some (0, data ! 0)" by (simp add: classify_Some_iff)
  then show "raw_hid_receive_kb cfg env st data = dispatch cfg env st data data 0 (data ! 0)"
    using assms by (simp add: raw_hid_receive_kb_def)
next
  assume a: "\<not> is_command (data ! 0) \<and> is_command (data ! 1)"
  then have "classify data = Some (1, data ! 1)" by (simp add: classify_Some_iff)
  then show eq: "raw_hid_receive_kb cfg env st data = dispatch cfg env st data data 1 (data ! 1)"
    using assms by (simp add: raw_hid_receive_kb_def)
  show "\<forall>st' d. raw_hid_receive_kb cfg env st data = Returns st' d \<longrightarrow> d ! 0 = data ! 0"
    unfolding eq using dispatch_echo [OF assms, of data 1] by blast
next
  assume "\<not> is_command (data ! 0) \<and> \<not> is_command (data ! 1)"
  then have "classify data = None" by (simp add: classify_None_iff)
  then show "raw_hid_receive_kb cfg env st data = Returns st (data[0 := 0xFF])"
    using assms by (simp add: raw_hid_receive_kb_def)
qed

text \<open>
  Three frames in the example build: INFO at byte 0 with another command code at byte 1,
  INFO at byte 1 behind the report ID 7, and a frame of zeros.
\<close>

theorem C8_classification_witness:
  "raw_hid_receive_kb example_cfg [] example_state
       (SECRET_CMD_INFO # SECRET_CMD_READ # replicate 30 0) =
     dispatch example_cfg [] example_state
       (SECRET_CMD_INFO # SECRET_CMD_READ # replicate 30 0)
       (SECRET_CMD_INFO # SECRET_CMD_READ # replicate 30 0) 0 SECRET_CMD_INFO \<and>
   raw_hid_receive_kb example_cfg [] example_state (7 # SECRET_CMD_INFO # replicate 30 0) =
     dispatch example_cfg [] example_state (7 # SECRET_CMD_INFO # replicate 30 0)
       (7 # SECRET_CMD_INFO # replicate 30 0) 1 SECRET_CMD_INFO \<and>
   raw_hid_receive_kb example_cfg [] example_state (0 # replicate 31 0) =
     Returns example_state (0xFF # replicate 31 0)"
proof (intro conjI)
  let ?a = "SECRET_CMD_INFO # SECRET_CMD_READ # replicate 30 (0::u8)"
  have la: "length ?a = 32" by simp
  have ca: "is_command (?a ! 0)" by (simp add: is_command_def)
  from C8_classification [OF la, of example_cfg "[]" example_state] ca
  have "raw_hid_receive_kb example_cfg [] example_state ?a =
          dispatch example_cfg [] example_state ?a ?a 0 (?a ! 0)"
    by blast
  then show "raw_hid_receive_kb example_cfg [] example_state ?a =
          dispatch example_cfg [] example_state ?a ?a 0 SECRET_CMD_INFO"
    by simp
next
  let ?b = "7 # SECRET_CMD_INFO # replicate 30 (0::u8)"
  have lb: "length ?b = 32" by simp
  have cb: "\<not> is_command (?b ! 0) \<and> is_command (?b ! 1)"
    by (simp add: is_command_def cmd_defs)
  from C8_classification [OF lb, of example_cfg "[]" example_state] cb
  have "raw_hid_receive_kb example_cfg [] example_state ?b =
          dispatch example_cfg [] example_state ?b ?b 1 (?b ! 1)"
    by blast
  then show "raw_hid_receive_kb example_cfg [] example_state ?b =
          dispatch example_cfg [] example_state ?b ?b 1 SECRET_CMD_INFO"
    by simp
next
  let ?c = "0 # replicate 31 (0::u8)"
  have lc: "length ?c = 32" by simp
  have cc: "\<not> is_command (?c ! 0) \<and> \<not> is_command (?c ! 1)"
    by (simp add: is_command_def cmd_defs)
  from C8_classification [OF lc, of example_cfg "[]" example_state] cc
  have "raw_hid_receive_kb example_cfg [] example_state ?c = Returns example_state (?c[0 := 0xFF])"
    by blast
  then show "raw_hid_receive_kb example_cfg [] example_state ?c =
          Returns example_state (0xFF # replicate 31 0)"
    by simp
qed

subsection \<open>C9\<close>



subsection \<open>C10\<close>

text \<open>
  C10. When \<^verbatim>\<open>secret_busy\<close> is clear the hook returns true and the state is unchanged.
  When it is set the hook returns false for every keycode, and the state changes only
  for a press of \<^verbatim>\<open>KC_ESC\<close>, by setting \<^verbatim>\<open>secret_abort\<close>; any other key and any release
  leave the state as it was.
\<close>

theorem C10_hook:
  "(\<not> secret_busy st \<longrightarrow>
      secret_storage_process_record_user cfg st keycode pressed = (True, st)) \<and>
   (secret_busy st \<longrightarrow>
      secret_storage_process_record_user cfg st keycode pressed =
        (False, if pressed \<and> keycode = KC_ESC cfg then st\<lparr>secret_abort := True\<rparr> else st))"
  by (simp add: secret_storage_process_record_user_def)

text \<open>Escape pressed while idle, pressed while busy, and released while busy.\<close>

theorem C10_hook_witness:
  "secret_storage_process_record_user example_cfg example_state 0x29 True
     = (True, example_state) \<and>
   secret_storage_process_record_user example_cfg (example_state\<lparr>secret_busy := True\<rparr>) 0x29 True
     = (False, example_state\<lparr>secret_busy := True, secret_abort := True\<rparr>) \<and>
   secret_storage_process_record_user example_cfg (example_state\<lparr>secret_busy := True\<rparr>) 0x29 False
     = (False, example_state\<lparr>secret_busy := True\<rparr>)"
  using C10_hook [of example_state example_cfg "0x29" True]
        C10_hook [of "example_state\<lparr>secret_busy := True\<rparr>" example_cfg "0x29" True]
        C10_hook [of "example_state\<lparr>secret_busy := True\<rparr>" example_cfg "0x29" False]
  by (simp add: example_state_def example_cfg_def)

end
